theory Spec2Isabelle
  imports Main "HOL-Library.Sublist"
begin

section \<open>Data model of \<open>app/lib/populate.py\<close>\<close>

text \<open>
  The module imports its entity classes, its stores and its database helpers from other
  modules of the application. What \<open>populate.py\<close> reads of them is modelled here: the
  fields it accesses, and the store operations it calls.
\<close>

text \<open>
  Modification times are compared with \<open>!=\<close> only, so a time stamp is modelled as an
  integer: what matters is whether two of them are equal.
\<close>

type_synonym mtime = int

text \<open>
  Modelled from the spec: the \<open>Track\<close> class of \<open>app.models\<close> and the tag extractor are
  not part of the sources. \<open>tags\<close> is the dictionary returned by \<open>get_tags\<close>, holding the
  keyword arguments of \<open>Track(**tags)\<close>; its fields are those the module reads
  (\<open>filepath\<close>, \<open>last_mod\<close>, \<open>trackhash\<close>, \<open>albumhash\<close>, \<open>artist\<close>, \<open>albumartist\<close>,
  \<open>image\<close>). An artist identity of a track is represented by its name, and its
  \<open>artisthash\<close> is derived from the name.
\<close>

record tags =
  filepath :: string
  last_mod :: mtime
  trackhash :: string
  albumhash :: string
  artist :: "string list"
  albumartist :: "string list"
  image :: string

text \<open>
  Modelled from the spec: a \<open>Track\<close> carries the fields of its tags and the derived flag
  \<open>is_favorite\<close>.
\<close>

record track = tags +
  is_favorite :: bool

text \<open>
  Modelled from the spec: the \<open>Album\<close> class is not part of the sources. An album is
  identified by its \<open>albumhash\<close> and refers to a representative image.
\<close>

record album =
  album_albumhash :: string
  album_image :: string

text \<open>
  Modelled from the spec: the \<open>Artist\<close> class is not part of the sources. An artist is
  identified by its \<open>artisthash\<close>, derived from the name.
\<close>

record artist_entity =
  name :: string
  artisthash :: string

text \<open>The exceptions that can leave the functions of the module.\<close>

datatype enrich_exn = RequestConnectionError | ReadTimeout | OtherException

datatype exn = PopulateCancelledError | OSError | Uncaught enrich_exn

datatype outcome = Returns | Raises exn

text \<open>
  What a run emits: its log lines and the stages it invokes, in order.
\<close>

datatype event =
    Warn_root_not_configured
  | Info_found_new nat
  | Warn_could_not_read string
  | Info_adding nat
  | Info_added nat nat
  | Error_connection_lost
  | Warn_no_internet
  | Call_validate_tracks
  | Call_extract_thumb string string
  | Call_ProcessTrackThumbnails
  | Call_ProcessAlbumColors
  | Call_ProcessArtistColors
  | Call_CheckArtistImages

text \<open>
  The process-wide state: the module global \<open>POPULATE_KEY\<close>, the three in-memory stores,
  the persistent track table, and the trace of events.
\<close>

record pstate =
  POPULATE_KEY :: string
  TrackStore_tracks :: "track list"
  AlbumStore_albums :: "album list"
  ArtistStore_artists :: "artist_entity list"
  db_tracks :: "tags list"
  events :: "event list"

text \<open>
  Everything the module consumes from outside: configuration, the file system, the tag
  extractor, the favourites table, the hash function, the connectivity probe, and the
  stages whose bodies live in other modules. The latter are parameters: arbitrary
  transformers of the state. \<open>key_writes i\<close> is the key a concurrently started session
  assigns to \<open>POPULATE_KEY\<close> between the previous per-file check and check number \<open>i\<close>
  of the tag-ingestion loop, if any.
\<close>

record world =
  root_dirs :: "string list"
  USER_HOME_DIR :: string
  run_fast_scandir :: "string \<Rightarrow> string list"
  getmtime :: "string \<Rightarrow> mtime option"
  get_tags :: "string \<Rightarrow> tags option"
  get_fav_tracks :: "(nat \<times> string \<times> string) list"
  create_hash :: "string \<Rightarrow> string"
  key_writes :: "nat \<Rightarrow> string option"
  Ping :: bool
  validate_tracks :: "pstate \<Rightarrow> pstate"
  ProcessAlbumColors :: "pstate \<Rightarrow> pstate"
  ProcessArtistColors :: "pstate \<Rightarrow> pstate"
  CheckArtistImages :: "pstate \<Rightarrow> enrich_exn option \<times> pstate"

section \<open>Logging and calls into other modules\<close>

definition log :: "event \<Rightarrow> pstate \<Rightarrow> pstate" where
  "log e s = s\<lparr>events := events s @ [e]\<rparr>"

text \<open>
  A stage of another module may change the stores as it likes; the global of this module
  and the trace of the run are not its to change. The call is recorded in the trace.
  The stages taken as state transformers (\<open>validate_tracks\<close>, \<open>ProcessAlbumColors\<close>,
  \<open>ProcessArtistColors\<close>) are taken to return; \<open>CheckArtistImages\<close> returns or raises.
\<close>

definition run_stage :: "(pstate \<Rightarrow> pstate) \<Rightarrow> event \<Rightarrow> pstate \<Rightarrow> pstate" where
  "run_stage f e s = (f s)\<lparr>POPULATE_KEY := POPULATE_KEY s, events := events s @ [e]\<rparr>"

section \<open>Store operations\<close>

text \<open>
  The classes \<open>TrackStore\<close>, \<open>AlbumStore\<close>, \<open>ArtistStore\<close> and \<open>SQLiteTrackMethods\<close> are
  not part of the sources. Each store is a collection of entities; insertion appends,
  \<open>exists(hash)\<close> is a membership test on the hashes, removal deletes by file path, and
  the bulk insert appends the batch to the table.
\<close>

text \<open>
  Modelled from the spec: \<open>TrackStore.add_track\<close> is missing; it inserts the
  track into the in-memory Track store.
\<close>

definition TrackStore_add_track :: "track \<Rightarrow> pstate \<Rightarrow> pstate" where
  "TrackStore_add_track t s = s\<lparr>TrackStore_tracks := TrackStore_tracks s @ [t]\<rparr>"

text \<open>
  Modelled from the spec: \<open>TrackStore.remove_tracks_by_filepaths\<close> is
  missing; it deletes from the in-memory Track store the entries keyed by the given file
  paths.
\<close>

definition TrackStore_remove_tracks_by_filepaths :: "string list \<Rightarrow> pstate \<Rightarrow> pstate" where
  "TrackStore_remove_tracks_by_filepaths fps s =
     s\<lparr>TrackStore_tracks := filter (\<lambda>t. filepath t \<notin> set fps) (TrackStore_tracks s)\<rparr>"

text \<open>
  Modelled from the spec: \<open>SQLiteTrackMethods.remove_tracks_by_filepaths\<close>
  is missing; it deletes from the persistent track table the rows keyed by the given
  file paths.
\<close>

definition remove_tracks_by_filepaths :: "string list \<Rightarrow> pstate \<Rightarrow> pstate" where
  "remove_tracks_by_filepaths fps s =
     s\<lparr>db_tracks := filter (\<lambda>t. filepath t \<notin> set fps) (db_tracks s)\<rparr>"

text \<open>
  Modelled from the spec: \<open>SQLiteTrackMethods.insert_many_tracks\<close> is
  missing; it is the single bulk insert of the batch into the persistent track table.
\<close>

definition insert_many_tracks :: "tags list \<Rightarrow> pstate \<Rightarrow> pstate" where
  "insert_many_tracks ts s = s\<lparr>db_tracks := db_tracks s @ ts\<rparr>"

text \<open>
  Modelled from the spec: \<open>SQLiteTrackMethods.get_all_tracks\<close> is missing;
  it returns the rows of the persistent track table, of which the module reads
  \<open>filepath\<close> and \<open>last_mod\<close>.
\<close>

definition get_all_tracks :: "pstate \<Rightarrow> tags list" where
  "get_all_tracks s = db_tracks s"

text \<open>
  Modelled from the spec: \<open>AlbumStore.album_exists\<close> is missing; it is the
  membership test \<open>exists(hash)\<close> on the Album store.
\<close>

definition AlbumStore_album_exists :: "string \<Rightarrow> pstate \<Rightarrow> bool" where
  "AlbumStore_album_exists h s \<longleftrightarrow> h \<in> set (map album_albumhash (AlbumStore_albums s))"

text \<open>
  Modelled from the spec: \<open>AlbumStore.create_album\<close> is missing; it
  synthesizes the album of a track, with the track's \<open>albumhash\<close>.
\<close>

definition AlbumStore_create_album :: "track \<Rightarrow> album" where
  "AlbumStore_create_album t = \<lparr>album_albumhash = albumhash t, album_image = image t\<rparr>"

text \<open>
  Modelled from the spec: \<open>AlbumStore.add_album\<close> is missing; it inserts the
  album into the Album store.
\<close>

definition AlbumStore_add_album :: "album \<Rightarrow> pstate \<Rightarrow> pstate" where
  "AlbumStore_add_album a s = s\<lparr>AlbumStore_albums := AlbumStore_albums s @ [a]\<rparr>"

text \<open>
  Modelled from the spec: \<open>ArtistStore.artist_exists\<close> is missing; it is the
  membership test \<open>exists(hash)\<close> on the Artist store.
\<close>

definition ArtistStore_artist_exists :: "string \<Rightarrow> pstate \<Rightarrow> bool" where
  "ArtistStore_artist_exists h s \<longleftrightarrow> h \<in> set (map artisthash (ArtistStore_artists s))"

text \<open>
  Modelled from the spec: the constructor \<open>Artist(name)\<close> is missing; the
  \<open>artisthash\<close> of the artist is derived from the name by the hash function,
  a parameter.
\<close>

definition Artist :: "world \<Rightarrow> string \<Rightarrow> artist_entity" where
  "Artist w n = \<lparr>name = n, artisthash = create_hash w n\<rparr>"

text \<open>
  Modelled from the spec: \<open>ArtistStore.add_artist\<close> is missing; it inserts
  the artist into the Artist store.
\<close>

definition ArtistStore_add_artist :: "artist_entity \<Rightarrow> pstate \<Rightarrow> pstate" where
  "ArtistStore_add_artist a s = s\<lparr>ArtistStore_artists := ArtistStore_artists s @ [a]\<rparr>"

section \<open>\<open>Populate.remove_modified\<close> and \<open>Populate.filter_untagged\<close>\<close>

text \<open>
  \<open>os.path.getmtime\<close> raises \<open>OSError\<close> for a path it cannot stat. The list
  comprehension is evaluated in full before either store is touched, so a raise leaves
  both stores as they were.
\<close>

definition remove_modified :: "world \<Rightarrow> tags list \<Rightarrow> pstate \<Rightarrow> outcome \<times> pstate" where
  "remove_modified w tracks s =
     (if \<exists>t \<in> set tracks. getmtime w (filepath t) = None then (Raises OSError, s)
      else
        let modified = map filepath
              (filter (\<lambda>t. Some (last_mod t) \<noteq> getmtime w (filepath t)) tracks)
        in (Returns,
            remove_tracks_by_filepaths modified
              (TrackStore_remove_tracks_by_filepaths modified s)))"

text \<open>
  \<open>set(files) - set(tagged_files)\<close>. Python iterates a set in an order of its own; the
  model lists each element once, in an order taken from \<open>files\<close>. The theorems on the
  loop below hold for every list of files, so for every order.
\<close>

definition filter_untagged :: "tags list \<Rightarrow> string list \<Rightarrow> string list" where
  "filter_untagged tracks files =
     (let tagged_files = map filepath tracks
      in remdups (filter (\<lambda>f. f \<notin> set tagged_files) files))"

section \<open>\<open>Populate.tag_untagged\<close>\<close>

text \<open>\<open>"-".join(...)\<close> on a list of strings.\<close>

fun join_dash :: "string list \<Rightarrow> string" where
  "join_dash [] = []"
| "join_dash [x] = x"
| "join_dash (x # y # ys) = x @ ''-'' @ join_dash (y # ys)"

text \<open>
  Line 124 takes the second column of each favourites row and joins the column into one
  string. \<open>fav_tracks\<close> is that string from then on, and \<open>track.trackhash in fav_tracks\<close>
  is Python's substring test on strings.
\<close>

definition fav_hashes :: "world \<Rightarrow> string list" where
  "fav_hashes w = map (\<lambda>t. fst (snd t)) (get_fav_tracks w)"

definition fav_tracks_joined :: "world \<Rightarrow> string" where
  "fav_tracks_joined w = join_dash (fav_hashes w)"

definition Track :: "tags \<Rightarrow> string \<Rightarrow> track" where
  "Track tg fav_tracks = tags.extend tg (track.fields (sublist (trackhash tg) fav_tracks))"

definition add_artist_if_new :: "world \<Rightarrow> string \<Rightarrow> pstate \<Rightarrow> pstate" where
  "add_artist_if_new w n s =
     (if \<not> ArtistStore_artist_exists (create_hash w n) s
      then ArtistStore_add_artist (Artist w n) s else s)"

text \<open>The body of the loop for a file whose tags could be read (lines 133 to 150).\<close>

definition ingest_track :: "world \<Rightarrow> string \<Rightarrow> tags \<Rightarrow> pstate \<Rightarrow> pstate" where
  "ingest_track w fav_tracks tg s =
     (let trk = Track tg fav_tracks;
          s1 = TrackStore_add_track trk s;
          s2 = (if \<not> AlbumStore_album_exists (albumhash trk) s1
                then AlbumStore_add_album (AlbumStore_create_album trk) s1 else s1);
          s3 = fold (add_artist_if_new w) (artist trk) s2
      in fold (add_artist_if_new w) (albumartist trk) s3)"

definition apply_write :: "string option \<Rightarrow> pstate \<Rightarrow> pstate" where
  "apply_write wr s = (case wr of None \<Rightarrow> s | Some k \<Rightarrow> s\<lparr>POPULATE_KEY := k\<rparr>)"

text \<open>
  The \<open>for\<close> loop of lines 126 to 152. Each file comes with the write a concurrent
  session made to \<open>POPULATE_KEY\<close> since the previous check, if any. The accumulator holds
  the locals \<open>tagged_tracks\<close> and \<open>tagged_count\<close> and the state. A raise returns the state
  at the raise: what was stored before stays stored.
\<close>

fun tag_loop ::
  "world \<Rightarrow> string \<Rightarrow> string \<Rightarrow> (string option \<times> string) list \<Rightarrow>
   tags list \<times> nat \<times> pstate \<Rightarrow> outcome \<times> tags list \<times> nat \<times> pstate" where
  "tag_loop w key fav_tracks [] acc = (Returns, acc)"
| "tag_loop w key fav_tracks ((wr, file) # rest) (tagged_tracks, tagged_count, s) =
     (let s1 = apply_write wr s
      in if POPULATE_KEY s1 \<noteq> key
         then (Raises PopulateCancelledError, tagged_tracks, tagged_count, s1)
         else (case get_tags w file of
                 Some tg \<Rightarrow>
                   tag_loop w key fav_tracks rest
                     (tagged_tracks @ [tg], Suc tagged_count, ingest_track w fav_tracks tg s1)
               | None \<Rightarrow>
                   tag_loop w key fav_tracks rest
                     (tagged_tracks, tagged_count, log (Warn_could_not_read file) s1)))"

definition tag_untagged ::
  "world \<Rightarrow> (string option \<times> string) list \<Rightarrow> string \<Rightarrow> pstate \<Rightarrow> outcome \<times> pstate" where
  "tag_untagged w untagged key s =
     (let s0 = log (Info_found_new (length untagged)) s;
          fav_tracks = fav_tracks_joined w
      in case tag_loop w key fav_tracks untagged ([], 0, s0) of
           (Raises e, tagged_tracks, tagged_count, s1) \<Rightarrow> (Raises e, s1)
         | (Returns, tagged_tracks, tagged_count, s1) \<Rightarrow>
             let s2 = (if length tagged_tracks > 0
                       then insert_many_tracks tagged_tracks
                              (log (Info_adding (length tagged_tracks)) s1)
                       else s1)
             in (Returns, log (Info_added tagged_count (length untagged)) s2))"

section \<open>\<open>get_image\<close> and \<open>ProcessTrackThumbnails\<close>\<close>

text \<open>
  \<open>get_image\<close> extracts the artwork of the first track of the album. The pool maps it
  over the albums; the model records the calls of \<open>extract_thumb\<close> in the order of the
  albums.
\<close>

definition get_image :: "pstate \<Rightarrow> album \<Rightarrow> event list" where
  "get_image s a =
     (case filter (\<lambda>t. albumhash t = album_albumhash a) (TrackStore_tracks s) of
        [] \<Rightarrow> []
      | t # _ \<Rightarrow> [Call_extract_thumb (filepath t) (image t)])"

definition ProcessTrackThumbnails :: "pstate \<Rightarrow> pstate" where
  "ProcessTrackThumbnails s =
     s\<lparr>events := events s @ [Call_ProcessTrackThumbnails]
                  @ concat (map (get_image s) (AlbumStore_albums s))\<rparr>"

section \<open>\<open>Populate.__init__\<close>\<close>

text \<open>Lines 63 to 72: the directories scanned and the files found beneath them.\<close>

definition dirs_to_scan :: "world \<Rightarrow> string list" where
  "dirs_to_scan w =
     (case root_dirs w of
        [] \<Rightarrow> []
      | d # ds \<Rightarrow> if d = ''$home'' then [USER_HOME_DIR w] else d # ds)"

definition scan_files :: "world \<Rightarrow> string list" where
  "scan_files w = concat (map (run_fast_scandir w) (dirs_to_scan w))"

definition call_CheckArtistImages :: "world \<Rightarrow> pstate \<Rightarrow> enrich_exn option \<times> pstate" where
  "call_CheckArtistImages w s =
     (case CheckArtistImages w s of
        (r, s') \<Rightarrow>
          (r, s'\<lparr>POPULATE_KEY := POPULATE_KEY s,
                  events := events s @ [Call_CheckArtistImages]\<rparr>))"

text \<open>Lines 80 to 82.\<close>

definition first_stages :: "world \<Rightarrow> pstate \<Rightarrow> pstate" where
  "first_stages w s =
     (let s1 = ProcessTrackThumbnails s;
          s2 = run_stage (ProcessAlbumColors w) Call_ProcessAlbumColors s1
      in run_stage (ProcessArtistColors w) Call_ProcessArtistColors s2)"

text \<open>
  Lines 84 to 101: the connectivity probe, the enrichment of artist images and the second
  colour pass. \<open>tried_to_download_new_images\<close> is set before \<open>CheckArtistImages\<close> is
  called; the handler catches \<open>RequestConnectionError\<close> and \<open>ReadTimeout\<close> only.
\<close>

definition post_stages :: "world \<Rightarrow> pstate \<Rightarrow> outcome \<times> pstate" where
  "post_stages w s =
     (let s3 = first_stages w s;
          (tried_to_download_new_images, r) =
            (if Ping w
             then (True,
                   (case call_CheckArtistImages w s3 of
                      (None, s4) \<Rightarrow> (Returns, s4)
                    | (Some e, s4) \<Rightarrow>
                        if e = RequestConnectionError \<or> e = ReadTimeout
                        then (Returns, log Error_connection_lost s4)
                        else (Raises (Uncaught e), s4)))
             else (False, (Returns, log Warn_no_internet s3)))
      in (case r of
            (Raises e, s5) \<Rightarrow> (Raises e, s5)
          | (Returns, s5) \<Rightarrow>
              (Returns,
               if tried_to_download_new_images
               then run_stage (ProcessArtistColors w) Call_ProcessArtistColors s5
               else s5)))"

definition Populate_init :: "world \<Rightarrow> string \<Rightarrow> pstate \<Rightarrow> outcome \<times> pstate" where
  "Populate_init w key s =
     (let s1 = run_stage (validate_tracks w) Call_validate_tracks (s\<lparr>POPULATE_KEY := key\<rparr>);
          tracks = get_all_tracks s1
      in if length (root_dirs w) = 0 then (Returns, log Warn_root_not_configured s1)
         else
           (let files = scan_files w
            in (case remove_modified w tracks s1 of
                  (Raises e, s2) \<Rightarrow> (Raises e, s2)
                | (Returns, s2) \<Rightarrow>
                    (let untagged = filter_untagged tracks files;
                         r = (if length untagged \<noteq> 0
                              then tag_untagged w
                                     (zip (map (key_writes w) [0..<length untagged]) untagged)
                                     key s2
                              else (Returns, s2))
                     in (case r of
                           (Raises e, s3) \<Rightarrow> (Raises e, s3)
                         | (Returns, s3) \<Rightarrow> post_stages w s3)))))"

section \<open>The key seen at each check\<close>

text \<open>
  The values of \<open>POPULATE_KEY\<close> read by the successive per-file checks of the loop, given
  the value before the first check and the concurrent writes that precede each check.
\<close>

fun observed_keys :: "string \<Rightarrow> string option list \<Rightarrow> string list" where
  "observed_keys cur [] = []"
| "observed_keys cur (wr # wrs) =
     (let k = (case wr of None \<Rightarrow> cur | Some k' \<Rightarrow> k') in k # observed_keys k wrs)"

section \<open>A small library used as a running example\<close>

text \<open>
  Three files under \<open>/music\<close>: two of album \<open>A\<close> by artist \<open>X\<close>, one of album \<open>B\<close> by
  artist \<open>Y\<close>; one file in the home directory. No concurrent session, a reachable
  network, and stages of other modules that leave the state alone.
\<close>

definition example_tags :: "string \<Rightarrow> string \<Rightarrow> string \<Rightarrow> string \<Rightarrow> tags" where
  "example_tags p th ah ar =
     \<lparr>filepath = p, last_mod = 1, trackhash = th, albumhash = ah,
      artist = [ar], albumartist = [ar], image = ah @ ''.webp''\<rparr>"

definition example_get_tags :: "string \<Rightarrow> tags option" where
  "example_get_tags p =
     (if p = ''/music/a.mp3'' then Some (example_tags p ''t1'' ''A'' ''X'')
      else if p = ''/music/b.mp3'' then Some (example_tags p ''t2'' ''A'' ''X'')
      else if p = ''/music/c.mp3'' then Some (example_tags p ''t3'' ''B'' ''Y'')
      else None)"

definition example_world :: world where
  "example_world =
     \<lparr>root_dirs = [''/music''],
      USER_HOME_DIR = ''/home/u'',
      run_fast_scandir = (\<lambda>d.
        if d = ''/music'' then [''/music/a.mp3'', ''/music/b.mp3'', ''/music/c.mp3'']
        else if d = ''/home/u'' then [''/home/u/h.mp3'']
        else []),
      getmtime = (\<lambda>p.
        if p \<in> set [''/music/a.mp3'', ''/music/b.mp3'', ''/music/c.mp3'', ''/home/u/h.mp3'']
        then Some 1 else None),
      get_tags = example_get_tags,
      get_fav_tracks = [(1, ''t2'', ''track'')],
      create_hash = (\<lambda>n. ''#'' @ n),
      key_writes = (\<lambda>i. None),
      Ping = True,
      validate_tracks = (\<lambda>s. s),
      ProcessAlbumColors = (\<lambda>s. s),
      ProcessArtistColors = (\<lambda>s. s),
      CheckArtistImages = (\<lambda>s. (None, s))\<rparr>"

definition empty_state :: pstate where
  "empty_state =
     \<lparr>POPULATE_KEY = [], TrackStore_tracks = [], AlbumStore_albums = [],
      ArtistStore_artists = [], db_tracks = [], events = []\<rparr>"

text \<open>The same library with one favourite, whose hash has the hash of a track as a part.\<close>

definition substring_world :: world where
  "substring_world = example_world\<lparr>get_fav_tracks := [(1, ''t10'', ''track'')]\<rparr>"

section \<open>Hashes present in the stores\<close>

definition album_hashes :: "pstate \<Rightarrow> string list" where
  "album_hashes s = map album_albumhash (AlbumStore_albums s)"

definition artist_hashes :: "pstate \<Rightarrow> string list" where
  "artist_hashes s = map artisthash (ArtistStore_artists s)"

text \<open>The album and every artist of a track have an entry in their store.\<close>

definition covered :: "world \<Rightarrow> pstate \<Rightarrow> track \<Rightarrow> bool" where
  "covered w s t \<longleftrightarrow>
     albumhash t \<in> set (album_hashes s) \<and>
     (\<forall>n \<in> set (artist t) \<union> set (albumartist t). create_hash w n \<in> set (artist_hashes s))"

text \<open>
  Two prior states for the example: one holds the library as a complete run leaves it,
  the other knows a file that is no longer on disk.
\<close>

definition library_state :: pstate where
  "library_state =
     \<lparr>POPULATE_KEY = ''K0'',
      TrackStore_tracks =
        [Track (example_tags ''/music/a.mp3'' ''t1'' ''A'' ''X'') ''t2'',
         Track (example_tags ''/music/b.mp3'' ''t2'' ''A'' ''X'') ''t2'',
         Track (example_tags ''/music/c.mp3'' ''t3'' ''B'' ''Y'') ''t2''],
      AlbumStore_albums =
        [\<lparr>album_albumhash = ''A'', album_image = ''A.webp''\<rparr>,
         \<lparr>album_albumhash = ''B'', album_image = ''B.webp''\<rparr>],
      ArtistStore_artists =
        [\<lparr>name = ''X'', artisthash = ''#X''\<rparr>, \<lparr>name = ''Y'', artisthash = ''#Y''\<rparr>],
      db_tracks =
        [example_tags ''/music/a.mp3'' ''t1'' ''A'' ''X'',
         example_tags ''/music/b.mp3'' ''t2'' ''A'' ''X'',
         example_tags ''/music/c.mp3'' ''t3'' ''B'' ''Y''],
      events = []\<rparr>"

definition gone_state :: pstate where
  "gone_state =
     empty_state
       \<lparr>TrackStore_tracks := [Track (example_tags ''/music/gone.mp3'' ''t9'' ''A'' ''X'') []],
        AlbumStore_albums := [\<lparr>album_albumhash = ''A'', album_image = ''A.webp''\<rparr>],
        ArtistStore_artists := [\<lparr>name = ''X'', artisthash = ''#X''\<rparr>],
        db_tracks := [example_tags ''/music/gone.mp3'' ''t9'' ''A'' ''X'']\<rparr>"

section \<open>Names for parts of a run\<close>

text \<open>
  The four collections a run works on, and what it means for a stage of another module
  to leave them as they are.
\<close>

definition catalog_of :: "pstate \<Rightarrow> track list \<times> album list \<times> artist_entity list \<times> tags list" where
  "catalog_of s = (TrackStore_tracks s, AlbumStore_albums s, ArtistStore_artists s, db_tracks s)"

definition keeps_catalog :: "(pstate \<Rightarrow> pstate) \<Rightarrow> bool" where
  "keeps_catalog f \<longleftrightarrow> (\<forall>s. catalog_of (f s) = catalog_of s)"

text \<open>
  The state after line 48 of \<open>Populate.__init__\<close>, and the files handed to \<open>tag_untagged\<close>
  on line 78, each with the concurrent write that precedes its check.
\<close>

definition validated :: "world \<Rightarrow> string \<Rightarrow> pstate \<Rightarrow> pstate" where
  "validated w key s =
     run_stage (validate_tracks w) Call_validate_tracks (s\<lparr>POPULATE_KEY := key\<rparr>)"

definition untagged_items :: "world \<Rightarrow> pstate \<Rightarrow> (string option \<times> string) list" where
  "untagged_items w s1 =
     (let untagged = filter_untagged (get_all_tracks s1) (scan_files w)
      in zip (map (key_writes w) [0..<length untagged]) untagged)"

text \<open>
  Variants of the example: the network fails during the download of artist images; the
  home sentinel is followed by a second root; a second session takes over before the
  second file is checked.
\<close>

definition netfail_world :: world where
  "netfail_world = example_world\<lparr>CheckArtistImages := (\<lambda>s. (Some RequestConnectionError, s))\<rparr>"

definition two_roots_world :: world where
  "two_roots_world = example_world\<lparr>root_dirs := [''$home'', ''/music'']\<rparr>"

definition cancel_world :: world where
  "cancel_world = example_world\<lparr>key_writes := (\<lambda>i. if i = 1 then Some ''K2'' else None)\<rparr>"

section \<open>The validation of known tracks\<close>

text \<open>
  Modelled from the spec: \<open>validate_tracks\<close> of \<open>app.lib.trackslib\<close> is missing, and it
  runs on line 48 before the known tracks are read. The spec has the tracks whose file
  is no longer readable from disk deleted from both the in-memory and the persistent Track
  store, keyed by file path; \<open>remove_modified\<close> cannot do it, since
  \<open>os.path.getmtime\<close> raises for such a file. \<open>drop_unreadable\<close> is a validation that
  does exactly this, given what \<open>getmtime\<close> answers. It is used in the examples; the
  theorems take \<open>validate_tracks\<close> as a parameter and state what they need of it.
\<close>

definition drop_unreadable :: "(string \<Rightarrow> mtime option) \<Rightarrow> pstate \<Rightarrow> pstate" where
  "drop_unreadable mt s =
     s\<lparr>TrackStore_tracks := filter (\<lambda>t. mt (filepath t) \<noteq> None) (TrackStore_tracks s),
       db_tracks := filter (\<lambda>t. mt (filepath t) \<noteq> None) (db_tracks s)\<rparr>"


text \<open>
  The example with a validation that removes the tracks of unreadable files; the same
  after \<open>a.mp3\<close> was modified; the same with a second session taking over before the
  second file is checked; and the same after all three files were modified.
\<close>

definition checked_world :: world where
  "checked_world = example_world\<lparr>validate_tracks := drop_unreadable (getmtime example_world)\<rparr>"

definition touched_world :: world where
  "touched_world =
     checked_world
       \<lparr>getmtime := (\<lambda>p. if p = ''/music/a.mp3'' then Some 2 else getmtime example_world p),
        get_tags := (\<lambda>p. if p = ''/music/a.mp3''
                          then Some ((example_tags p ''t1'' ''A'' ''X'')\<lparr>last_mod := 2\<rparr>)
                          else example_get_tags p),
        validate_tracks := drop_unreadable
          (\<lambda>p. if p = ''/music/a.mp3'' then Some 2 else getmtime example_world p)\<rparr>"

definition cancel_checked_world :: world where
  "cancel_checked_world =
     checked_world\<lparr>key_writes := (\<lambda>i. if i = 1 then Some ''K2'' else None)\<rparr>"

definition all_touched_world :: world where
  "all_touched_world =
     checked_world
       \<lparr>getmtime := (\<lambda>p. map_option (\<lambda>m. 2) (getmtime example_world p)),
        get_tags := (\<lambda>p. map_option (\<lambda>t. t\<lparr>last_mod := 2\<rparr>) (example_get_tags p)),
        validate_tracks := drop_unreadable (\<lambda>p. map_option (\<lambda>m. 2) (getmtime example_world p))\<rparr>"

section \<open>Frame lemmas\<close>

lemma log_frame [simp]:
  "POPULATE_KEY (log e s) = POPULATE_KEY s"
  "TrackStore_tracks (log e s) = TrackStore_tracks s"
  "AlbumStore_albums (log e s) = AlbumStore_albums s"
  "ArtistStore_artists (log e s) = ArtistStore_artists s"
  "db_tracks (log e s) = db_tracks s"
  "events (log e s) = events s @ [e]"
  by (simp_all add: log_def)

lemmas store_defs =
  log_def run_stage_def TrackStore_add_track_def AlbumStore_add_album_def
  ArtistStore_add_artist_def insert_many_tracks_def apply_write_def
  TrackStore_remove_tracks_by_filepaths_def remove_tracks_by_filepaths_def

lemma add_artist_if_new_frame:
  "TrackStore_tracks (add_artist_if_new w n s) = TrackStore_tracks s"
  "AlbumStore_albums (add_artist_if_new w n s) = AlbumStore_albums s"
  "db_tracks (add_artist_if_new w n s) = db_tracks s"
  "events (add_artist_if_new w n s) = events s"
  "POPULATE_KEY (add_artist_if_new w n s) = POPULATE_KEY s"
  by (simp_all add: add_artist_if_new_def store_defs)

lemma fold_add_artist_frame:
  "TrackStore_tracks (fold (add_artist_if_new w) ns s) = TrackStore_tracks s"
  "AlbumStore_albums (fold (add_artist_if_new w) ns s) = AlbumStore_albums s"
  "db_tracks (fold (add_artist_if_new w) ns s) = db_tracks s"
  "events (fold (add_artist_if_new w) ns s) = events s"
  "POPULATE_KEY (fold (add_artist_if_new w) ns s) = POPULATE_KEY s"
  by (induction ns arbitrary: s; simp add: add_artist_if_new_frame)+

lemma ingest_track_frame:
  "TrackStore_tracks (ingest_track w fav tg s) = TrackStore_tracks s @ [Track tg fav]"
  "db_tracks (ingest_track w fav tg s) = db_tracks s"
  "events (ingest_track w fav tg s) = events s"
  "POPULATE_KEY (ingest_track w fav tg s) = POPULATE_KEY s"
  by (simp_all add: ingest_track_def Let_def fold_add_artist_frame store_defs)

lemma tag_loop_append:
  "tag_loop w key fav pre acc = (Returns, acc') \<Longrightarrow>
   tag_loop w key fav (pre @ rest) acc = tag_loop w key fav rest acc'"
  by (induction w key fav pre acc rule: tag_loop.induct)
     (auto simp: Let_def split: if_splits option.splits)

lemma tag_loop_outcome:
  "tag_loop w key fav items acc = (r, acc') \<Longrightarrow> r = Returns \<or> r = Raises PopulateCancelledError"
  by (induction w key fav items acc rule: tag_loop.induct)
     (auto simp: Let_def split: if_splits option.splits)

lemma tag_loop_frame:
  "tag_loop w key fav items (tt, tc, s) = (r, tt', tc', s') \<Longrightarrow>
   db_tracks s' = db_tracks s \<and> prefix (TrackStore_tracks s) (TrackStore_tracks s')"
proof (induction items arbitrary: tt tc s)
  case Nil
  then show ?case by simp
next
  case (Cons a items)
  obtain wr fl where a: "a = (wr, fl)" by (cases a)
  show ?case
  proof (cases "POPULATE_KEY (apply_write wr s) = key")
    case False
    with Cons.prems show ?thesis
      unfolding a by (auto simp: Let_def store_defs split: option.splits)
  next
    case True
    show ?thesis
    proof (cases "get_tags w fl")
      case None
      with True Cons.prems
      have "tag_loop w key fav items (tt, tc, log (Warn_could_not_read fl) (apply_write wr s))
            = (r, tt', tc', s')"
        unfolding a by (simp add: Let_def)
      from Cons.IH[OF this] show ?thesis
        by (auto simp: store_defs split: option.splits)
    next
      case (Some tg)
      with True Cons.prems
      have "tag_loop w key fav items (tt @ [tg], Suc tc, ingest_track w fav tg (apply_write wr s))
            = (r, tt', tc', s')"
        unfolding a by (simp add: Let_def)
      from Cons.IH[OF this] show ?thesis
        by (auto simp: ingest_track_frame store_defs prefix_def split: option.splits)
    qed
  qed
qed

section \<open>The keys observed by the loop\<close>

lemma POPULATE_KEY_apply_write:
  "POPULATE_KEY (apply_write wr s) = (case wr of None \<Rightarrow> POPULATE_KEY s | Some k \<Rightarrow> k)"
  by (simp add: apply_write_def split: option.splits)

lemma tag_loop_returns_iff:
  "fst (tag_loop w key fav items (tt, tc, s)) = Returns \<longleftrightarrow>
   (\<forall>k \<in> set (observed_keys (POPULATE_KEY s) (map fst items)). k = key)"
proof (induction items arbitrary: tt tc s)
  case Nil
  then show ?case by simp
next
  case (Cons a items)
  obtain wr fl where a: "a = (wr, fl)" by (cases a)
  let ?k = "POPULATE_KEY (apply_write wr s)"
  have obs: "observed_keys (POPULATE_KEY s) (map fst (a # items))
             = ?k # observed_keys ?k (map fst items)"
    by (simp add: a POPULATE_KEY_apply_write Let_def)
  show ?case
  proof (cases "?k = key")
    case False
    then show ?thesis unfolding obs by (simp add: a Let_def)
  next
    case True
    show ?thesis
    proof (cases "get_tags w fl")
      case None
      have "POPULATE_KEY (log (Warn_could_not_read fl) (apply_write wr s)) = ?k"
        by (simp add: log_def)
      with Cons.IH[of tt tc "log (Warn_could_not_read fl) (apply_write wr s)"] True None
      show ?thesis unfolding obs by (simp add: a Let_def)
    next
      case (Some tg)
      have "POPULATE_KEY (ingest_track w fav tg (apply_write wr s)) = ?k"
        by (simp add: ingest_track_frame)
      with Cons.IH[of "tt @ [tg]" "Suc tc" "ingest_track w fav tg (apply_write wr s)"] True Some
      show ?thesis unfolding obs by (simp add: a Let_def)
    qed
  qed
qed

lemma tag_loop_POPULATE_KEY:
  "tag_loop w key fav items (tt, tc, s) = (Returns, tt', tc', s') \<Longrightarrow>
   POPULATE_KEY s' = last (POPULATE_KEY s # observed_keys (POPULATE_KEY s) (map fst items))"
proof (induction items arbitrary: tt tc s)
  case Nil
  then show ?case by simp
next
  case (Cons a items)
  obtain wr fl where a: "a = (wr, fl)" by (cases a)
  let ?k = "POPULATE_KEY (apply_write wr s)"
  have obs: "observed_keys (POPULATE_KEY s) (map fst (a # items))
             = ?k # observed_keys ?k (map fst items)"
    by (simp add: a POPULATE_KEY_apply_write Let_def)
  from Cons.prems have k: "?k = key"
    unfolding a by (auto simp: Let_def split: if_splits)
  show ?case
  proof (cases "get_tags w fl")
    case None
    have pk: "POPULATE_KEY (log (Warn_could_not_read fl) (apply_write wr s)) = ?k"
      by (simp add: log_def)
    from Cons.prems k None
    have "tag_loop w key fav items (tt, tc, log (Warn_could_not_read fl) (apply_write wr s))
          = (Returns, tt', tc', s')"
      unfolding a by (simp add: Let_def)
    from Cons.IH[OF this] show ?thesis unfolding obs pk by simp
  next
    case (Some tg)
    have pk: "POPULATE_KEY (ingest_track w fav tg (apply_write wr s)) = ?k"
      by (simp add: ingest_track_frame)
    from Cons.prems k Some
    have "tag_loop w key fav items (tt @ [tg], Suc tc, ingest_track w fav tg (apply_write wr s))
          = (Returns, tt', tc', s')"
      unfolding a by (simp add: Let_def)
    from Cons.IH[OF this] show ?thesis unfolding obs pk by simp
  qed
qed

lemma observed_keys_append:
  "observed_keys cur (xs @ ys) =
   observed_keys cur xs @ observed_keys (last (cur # observed_keys cur xs)) ys"
  by (induction xs arbitrary: cur) (auto simp: Let_def)

lemma length_observed_keys: "length (observed_keys cur xs) = length xs"
  by (induction xs arbitrary: cur) (auto simp: Let_def)

lemma observed_keys_same:
  "\<forall>wr \<in> set wrs. wr = None \<or> wr = Some key \<Longrightarrow>
   \<forall>k \<in> set (observed_keys key wrs). k = key"
  by (induction wrs) (auto simp: Let_def)

lemma observed_keys_snoc_nth:
  "observed_keys cur (xs @ [wr]) ! length xs =
   (case wr of None \<Rightarrow> last (cur # observed_keys cur xs) | Some k \<Rightarrow> k)"
  by (simp add: observed_keys_append nth_append length_observed_keys Let_def
           split: option.splits)

section \<open>Cancellation of the tag-ingestion loop\<close>

text \<open>
  Claim C1. Let the checks of the files in \<open>pre\<close> all read the captured key, and let the
  check at the start of the next file's iteration read a different key. Then the loop has
  processed exactly the files of \<open>pre\<close>; \<open>tag_untagged\<close> raises \<open>PopulateCancelledError\<close>
  from that check, whatever files follow; the Track store is the one the files of \<open>pre\<close>
  produced, and it extends the store the stage started from. \<open>PopulateCancelledError\<close> is
  none of the other exceptions.
\<close>

theorem tag_untagged_stops_on_key_change:
  assumes before: "\<forall>k \<in> set (observed_keys (POPULATE_KEY s) (map fst pre)). k = key"
      and differs: "observed_keys (POPULATE_KEY s) (map fst (pre @ [(wr, f)])) ! length pre \<noteq> key"
  shows "\<exists>tt tc s1.
           tag_loop w key (fav_tracks_joined w) pre
             ([], 0, log (Info_found_new (length (pre @ (wr, f) # post))) s) = (Returns, tt, tc, s1)
         \<and> tag_untagged w (pre @ (wr, f) # post) key s
             = (Raises PopulateCancelledError, apply_write wr s1)
         \<and> TrackStore_tracks (apply_write wr s1) = TrackStore_tracks s1
         \<and> prefix (TrackStore_tracks s) (TrackStore_tracks s1)
         \<and> PopulateCancelledError \<noteq> OSError
         \<and> (\<forall>e. PopulateCancelledError \<noteq> Uncaught e)"
proof -
  let ?fav = "fav_tracks_joined w"
  let ?s0 = "log (Info_found_new (length (pre @ (wr, f) # post))) s"
  obtain r tt tc s1 where pre: "tag_loop w key ?fav pre ([], 0, ?s0) = (r, tt, tc, s1)"
    by (cases "tag_loop w key ?fav pre ([], 0, ?s0)")
  from tag_loop_returns_iff[of w key ?fav pre "[]" 0 ?s0] before pre
  have r: "r = Returns" by simp
  note pre = pre[unfolded r]
  from tag_loop_POPULATE_KEY[OF pre]
  have pk1: "POPULATE_KEY s1 = last (POPULATE_KEY s # observed_keys (POPULATE_KEY s) (map fst pre))"
    by simp
  have "observed_keys (POPULATE_KEY s) (map fst (pre @ [(wr, f)])) ! length pre
        = POPULATE_KEY (apply_write wr s1)"
    using observed_keys_snoc_nth[of "POPULATE_KEY s" "map fst pre" wr]
    by (simp add: POPULATE_KEY_apply_write pk1 del: last.simps split: option.splits)
  with differs have neq: "POPULATE_KEY (apply_write wr s1) \<noteq> key"
    by simp
  have "tag_loop w key ?fav (pre @ (wr, f) # post) ([], 0, ?s0)
        = tag_loop w key ?fav ((wr, f) # post) (tt, tc, s1)"
    by (rule tag_loop_append[OF pre])
  also have "\<dots> = (Raises PopulateCancelledError, tt, tc, apply_write wr s1)"
    using neq by (simp add: Let_def)
  finally have "tag_untagged w (pre @ (wr, f) # post) key s
                = (Raises PopulateCancelledError, apply_write wr s1)"
    by (simp add: tag_untagged_def Let_def)
  moreover have "TrackStore_tracks (apply_write wr s1) = TrackStore_tracks s1"
    by (simp add: apply_write_def split: option.splits)
  moreover from tag_loop_frame[OF pre] have "prefix (TrackStore_tracks s) (TrackStore_tracks s1)"
    by simp
  ultimately show ?thesis using pre by simp
qed

theorem tag_untagged_stops_on_key_change_witness:
  "observed_keys ''K1'' (map fst [(None :: string option, ''/music/a.mp3'')]) = [''K1''] \<and>
   observed_keys ''K1''
     (map fst ([(None, ''/music/a.mp3'')] @ [(Some ''K2'', ''/music/b.mp3'')])) ! 1 \<noteq> ''K1'' \<and>
   fst (tag_untagged example_world
          [(None, ''/music/a.mp3''), (Some ''K2'', ''/music/b.mp3''), (None, ''/music/c.mp3'')]
          ''K1'' (empty_state\<lparr>POPULATE_KEY := ''K1''\<rparr>))
     = Raises PopulateCancelledError"
  using tag_untagged_stops_on_key_change
    [of "empty_state\<lparr>POPULATE_KEY := ''K1''\<rparr>" "[(None, ''/music/a.mp3'')]" "''K1''"
        "Some ''K2''" "''/music/b.mp3''" example_world "[(None, ''/music/c.mp3'')]"]
  by (auto simp: Let_def)

text \<open>
  Claim C10. \<open>tag_untagged\<close> raises \<open>PopulateCancelledError\<close> if and only if some per-file
  check reads a key different from the captured one, and returns if and only if every
  check reads the captured key. In particular a concurrent session started with the same
  key, whose only effect on \<open>POPULATE_KEY\<close> is to write that key again, does not cancel
  the loop.
\<close>

theorem tag_untagged_cancelled_iff_key_differs:
  "(fst (tag_untagged w items key s) = Raises PopulateCancelledError \<longleftrightarrow>
      (\<exists>k \<in> set (observed_keys (POPULATE_KEY s) (map fst items)). k \<noteq> key)) \<and>
   (fst (tag_untagged w items key s) = Returns \<longleftrightarrow>
      (\<forall>k \<in> set (observed_keys (POPULATE_KEY s) (map fst items)). k = key)) \<and>
   (POPULATE_KEY s = key \<and> (\<forall>wr \<in> set (map fst items). wr = None \<or> wr = Some key) \<longrightarrow>
      fst (tag_untagged w items key s) = Returns)"
proof -
  let ?s0 = "log (Info_found_new (length items)) s"
  let ?r = "tag_loop w key (fav_tracks_joined w) items ([], 0, ?s0)"
  obtain r tt tc s1 where r: "?r = (r, tt, tc, s1)" by (cases ?r)
  have out: "fst (tag_untagged w items key s) = r"
    using r tag_loop_outcome[OF r]
    by (auto simp: tag_untagged_def Let_def)
  have "POPULATE_KEY ?s0 = POPULATE_KEY s" by (simp add: log_def)
  with tag_loop_returns_iff[of w key "fav_tracks_joined w" items "[]" 0 ?s0] r
  have ret: "r = Returns \<longleftrightarrow>
      (\<forall>k \<in> set (observed_keys (POPULATE_KEY s) (map fst items)). k = key)"
    by simp
  have same: "POPULATE_KEY s = key \<and> (\<forall>wr \<in> set (map fst items). wr = None \<or> wr = Some key)
      \<longrightarrow> r = Returns"
    using observed_keys_same[of "map fst items" key] ret by auto
  from tag_loop_outcome[OF r] ret same show ?thesis
    unfolding out by auto
qed

theorem tag_untagged_cancelled_iff_key_differs_witness:
  "fst (tag_untagged example_world
          [(None, ''/music/a.mp3''), (Some ''K2'', ''/music/b.mp3'')]
          ''K1'' (empty_state\<lparr>POPULATE_KEY := ''K1''\<rparr>))
     = Raises PopulateCancelledError \<and>
   fst (tag_untagged example_world
          [(None, ''/music/a.mp3''), (Some ''K1'', ''/music/b.mp3'')]
          ''K1'' (empty_state\<lparr>POPULATE_KEY := ''K1''\<rparr>))
     = Returns"
  using tag_untagged_cancelled_iff_key_differs
    [of example_world "[(None, ''/music/a.mp3''), (Some ''K2'', ''/music/b.mp3'')]"
        "''K1''" "empty_state\<lparr>POPULATE_KEY := ''K1''\<rparr>"]
    tag_untagged_cancelled_iff_key_differs
    [of example_world "[(None, ''/music/a.mp3''), (Some ''K1'', ''/music/b.mp3'')]"
        "''K1''" "empty_state\<lparr>POPULATE_KEY := ''K1''\<rparr>"]
  by (simp add: Let_def)

section \<open>Substrings of the joined favourites\<close>

lemma Track_fields [simp]:
  "is_favorite (Track tg fav) = sublist (trackhash tg) fav"
  "trackhash (Track tg fav) = trackhash tg"
  "albumhash (Track tg fav) = albumhash tg"
  "filepath (Track tg fav) = filepath tg"
  "last_mod (Track tg fav) = last_mod tg"
  "artist (Track tg fav) = artist tg"
  "albumartist (Track tg fav) = albumartist tg"
  "image (Track tg fav) = image tg"
  by (simp_all add: Track_def tags.defs track.defs)

lemma sublist_join_dash_member: "h \<in> set hs \<Longrightarrow> sublist h (join_dash hs)"
proof (induction hs rule: join_dash.induct)
  case 1
  then show ?case by simp
next
  case (2 x)
  then show ?case by simp
next
  case (3 x y ys)
  show ?case
  proof (cases "h = x")
    case True
    then show ?thesis by (simp add: sublist_append)
  next
    case False
    with 3 have "sublist h (join_dash (y # ys))" by simp
    then have "sublist h (CHR ''-'' # join_dash (y # ys))"
      by (simp add: sublist_Cons_right)
    then show ?thesis by (simp add: sublist_append)
  qed
qed

lemma sublist_join_dash_within:
  assumes "sublist t (join_dash hs)" "t \<noteq> []" "CHR ''-'' \<notin> set t"
  shows "\<exists>h \<in> set hs. sublist t h"
  using assms
proof (induction hs rule: join_dash.induct)
  case 1
  then show ?case by simp
next
  case (2 x)
  then show ?case by simp
next
  case (3 x y ys)
  let ?rest = "join_dash (y # ys)"
  from "3.prems"(1) have "sublist t (x @ CHR ''-'' # ?rest)" by simp
  then consider (l) "sublist t x" | (r) "sublist t (CHR ''-'' # ?rest)"
    | (m) t1 t2 where "t = t1 @ t2" "suffix t1 x" "prefix t2 (CHR ''-'' # ?rest)"
    by (auto simp: sublist_append)
  then show ?case
  proof cases
    case l
    then show ?thesis by auto
  next
    case r
    then have "prefix t (CHR ''-'' # ?rest) \<or> sublist t ?rest"
      by (simp add: sublist_Cons_right)
    moreover have "\<not> prefix t (CHR ''-'' # ?rest)"
      using "3.prems"(2,3) by (cases t) (auto simp: prefix_Cons)
    ultimately have "sublist t ?rest" by simp
    with "3.IH" "3.prems"(2,3) show ?thesis by auto
  next
    case m
    have "t2 = []"
      using m(1,3) "3.prems"(3) by (cases t2) (auto simp: prefix_Cons)
    with m have "suffix t x" by simp
    then have "sublist t x" by (rule suffix_imp_sublist)
    then show ?thesis by auto
  qed
qed

lemma sublist_same_length: "sublist t h \<Longrightarrow> length h \<le> length t \<Longrightarrow> t = h"
  by (auto simp: sublist_def)

section \<open>What the loop adds\<close>

lemma tag_loop_added:
  "tag_loop w key fav items (tt, tc, s) = (r, tt', tc', s') \<Longrightarrow>
   \<exists>new. tt' = tt @ new \<and> tc' = tc + length new
       \<and> TrackStore_tracks s' = TrackStore_tracks s @ map (\<lambda>tg. Track tg fav) new
       \<and> (\<forall>tg \<in> set new. \<exists>f \<in> snd ` set items. get_tags w f = Some tg)
       \<and> (r = Returns \<longrightarrow> new = List.map_filter (get_tags w) (map snd items))"
proof (induction items arbitrary: tt tc s)
  case Nil
  then show ?case by (simp add: List.map_filter_simps)
next
  case (Cons a items)
  obtain wr fl where a: "a = (wr, fl)" by (cases a)
  have ts: "TrackStore_tracks (apply_write wr s) = TrackStore_tracks s"
    by (simp add: apply_write_def split: option.splits)
  show ?case
  proof (cases "POPULATE_KEY (apply_write wr s) = key")
    case False
    with Cons.prems show ?thesis
      unfolding a by (auto simp: Let_def ts)
  next
    case True
    show ?thesis
    proof (cases "get_tags w fl")
      case None
      with True Cons.prems
      have "tag_loop w key fav items (tt, tc, log (Warn_could_not_read fl) (apply_write wr s))
            = (r, tt', tc', s')"
        unfolding a by (simp add: Let_def)
      from Cons.IH[OF this] None show ?thesis
        unfolding a by (auto simp: ts List.map_filter_simps)
    next
      case (Some tg)
      with True Cons.prems
      have "tag_loop w key fav items (tt @ [tg], Suc tc, ingest_track w fav tg (apply_write wr s))
            = (r, tt', tc', s')"
        unfolding a by (simp add: Let_def)
      from Cons.IH[OF this] obtain new where new:
        "tt' = (tt @ [tg]) @ new" "tc' = Suc tc + length new"
        "TrackStore_tracks s' = TrackStore_tracks (ingest_track w fav tg (apply_write wr s))
           @ map (\<lambda>tg. Track tg fav) new"
        "\<forall>tg \<in> set new. \<exists>f \<in> snd ` set items. get_tags w f = Some tg"
        "r = Returns \<longrightarrow> new = List.map_filter (get_tags w) (map snd items)"
        by blast
      show ?thesis
      proof (intro exI[of _ "tg # new"] conjI)
        show "tt' = tt @ tg # new" using new(1) by simp
        show "tc' = tc + length (tg # new)" using new(2) by simp
        show "TrackStore_tracks s' = TrackStore_tracks s @ map (\<lambda>tg. Track tg fav) (tg # new)"
          using new(3) by (simp add: ingest_track_frame ts)
        show "\<forall>tg \<in> set (tg # new). \<exists>f \<in> snd ` set (a # items). get_tags w f = Some tg"
          using new(4) Some unfolding a by auto
        show "r = Returns \<longrightarrow> tg # new = List.map_filter (get_tags w) (map snd (a # items))"
          using new(5) Some unfolding a by (simp add: List.map_filter_simps)
      qed
    qed
  qed
qed

lemma tag_untagged_tracks:
  "\<exists>new. TrackStore_tracks (snd (tag_untagged w items key s))
          = TrackStore_tracks s @ map (\<lambda>tg. Track tg (fav_tracks_joined w)) new
       \<and> (\<forall>tg \<in> set new. \<exists>f \<in> snd ` set items. get_tags w f = Some tg)"
proof -
  let ?s0 = "log (Info_found_new (length items)) s"
  let ?r = "tag_loop w key (fav_tracks_joined w) items ([], 0, ?s0)"
  obtain r tt tc s1 where r: "?r = (r, tt, tc, s1)" by (cases ?r)
  from tag_loop_added[OF r] obtain new where new:
    "TrackStore_tracks s1 = TrackStore_tracks s @ map (\<lambda>tg. Track tg (fav_tracks_joined w)) new"
    "\<forall>tg \<in> set new. \<exists>f \<in> snd ` set items. get_tags w f = Some tg"
    by auto
  have "TrackStore_tracks (snd (tag_untagged w items key s)) = TrackStore_tracks s1"
    using r tag_loop_outcome[OF r]
    by (auto simp: tag_untagged_def Let_def insert_many_tracks_def)
  with new show ?thesis by auto
qed

lemmas eval_defs =
  tag_untagged_def ingest_track_def Track_def add_artist_if_new_def Artist_def
  AlbumStore_album_exists_def ArtistStore_artist_exists_def AlbumStore_create_album_def
  fav_tracks_joined_def fav_hashes_def example_world_def example_get_tags_def example_tags_def
  empty_state_def store_defs Let_def tags.defs track.defs

section \<open>The favourite flag\<close>

text \<open>
  Claim C2, as the code has it. Every track that \<open>tag_untagged\<close> adds to the Track store
  has \<open>is_favorite\<close> true exactly when its \<open>trackhash\<close> occurs as a substring of the
  favourite hashes joined by \<open>-\<close>. A hash that is one of the favourites is always
  flagged. The flag is membership in the favourites when the \<open>trackhash\<close> is not empty,
  contains no \<open>-\<close>, and no favourite hash is longer than it, as with hashes of one fixed
  length.
\<close>

theorem tag_untagged_is_favorite:
  assumes "t \<in> set (drop (length (TrackStore_tracks s))
                     (TrackStore_tracks (snd (tag_untagged w items key s))))"
  shows "(is_favorite t \<longleftrightarrow> sublist (trackhash t) (join_dash (fav_hashes w))) \<and>
         (trackhash t \<in> set (fav_hashes w) \<longrightarrow> is_favorite t) \<and>
         (trackhash t \<noteq> [] \<and> CHR ''-'' \<notin> set (trackhash t) \<and>
          (\<forall>h \<in> set (fav_hashes w). length h \<le> length (trackhash t)) \<longrightarrow>
            (is_favorite t \<longleftrightarrow> trackhash t \<in> set (fav_hashes w)))"
proof -
  from tag_untagged_tracks[of w items key s] assms
  obtain tg where t: "t = Track tg (fav_tracks_joined w)"
    by auto
  have fav: "is_favorite t \<longleftrightarrow> sublist (trackhash t) (join_dash (fav_hashes w))"
    unfolding t by (simp add: fav_tracks_joined_def)
  have mem: "trackhash t \<in> set (fav_hashes w) \<Longrightarrow> is_favorite t"
    unfolding fav by (rule sublist_join_dash_member)
  have conv: "trackhash t \<in> set (fav_hashes w)"
    if "is_favorite t" "trackhash t \<noteq> []" "CHR ''-'' \<notin> set (trackhash t)"
       "\<forall>h \<in> set (fav_hashes w). length h \<le> length (trackhash t)"
  proof -
    from sublist_join_dash_within[OF that(1)[unfolded fav] that(2,3)]
    obtain h where h: "h \<in> set (fav_hashes w)" "sublist (trackhash t) h" by auto
    with that(4) have "trackhash t = h" by (auto intro: sublist_same_length)
    with h show ?thesis by simp
  qed
  from fav mem conv show ?thesis by blast
qed

theorem tag_untagged_is_favorite_witness:
  "Track (example_tags ''/music/b.mp3'' ''t2'' ''A'' ''X'') ''t2''
     \<in> set (drop (length (TrackStore_tracks (empty_state\<lparr>POPULATE_KEY := ''K1''\<rparr>)))
         (TrackStore_tracks (snd (tag_untagged example_world [(None, ''/music/b.mp3'')] ''K1''
            (empty_state\<lparr>POPULATE_KEY := ''K1''\<rparr>))))) \<and>
   is_favorite (Track (example_tags ''/music/b.mp3'' ''t2'' ''A'' ''X'') ''t2'') \<and>
   ''t2'' \<in> set (fav_hashes example_world)"
  using tag_untagged_is_favorite
    [of "Track (example_tags ''/music/b.mp3'' ''t2'' ''A'' ''X'') ''t2''"
        "empty_state\<lparr>POPULATE_KEY := ''K1''\<rparr>" example_world
        "[(None, ''/music/b.mp3'')]" "''K1''"]
  by (simp add: eval_defs sublist_code)

text \<open>
  The claim as stated fails: with the single favourite \<open>t10\<close>, the track with hash \<open>t1\<close>
  is flagged as a favourite although \<open>t1\<close> is not among the favourite hashes.
\<close>

theorem is_favorite_not_membership:
  "map (\<lambda>t. (trackhash t, is_favorite t))
     (TrackStore_tracks (snd (tag_untagged substring_world [(None, ''/music/a.mp3'')] ''K1''
        (empty_state\<lparr>POPULATE_KEY := ''K1''\<rparr>))))
     = [(''t1'', True)] \<and>
   ''t1'' \<notin> set (fav_hashes substring_world)"
  by (simp add: substring_world_def eval_defs sublist_code)

section \<open>Albums and artists are stored once\<close>

lemma add_artist_if_new_artists:
  "distinct (artist_hashes s) \<Longrightarrow> distinct (artist_hashes (add_artist_if_new w n s))"
  "prefix (ArtistStore_artists s) (ArtistStore_artists (add_artist_if_new w n s))"
  "set (artist_hashes (add_artist_if_new w n s)) = insert (create_hash w n) (set (artist_hashes s))"
  by (auto simp: add_artist_if_new_def artist_hashes_def ArtistStore_artist_exists_def
        ArtistStore_add_artist_def Artist_def)

lemma fold_add_artist_artists:
  "distinct (artist_hashes s) \<Longrightarrow> distinct (artist_hashes (fold (add_artist_if_new w) ns s))"
  "prefix (ArtistStore_artists s) (ArtistStore_artists (fold (add_artist_if_new w) ns s))"
  "set (artist_hashes (fold (add_artist_if_new w) ns s)) = create_hash w ` set ns \<union> set (artist_hashes s)"
proof (induction ns arbitrary: s)
  case Nil
  { case 1 then show ?case by simp }
  { case 2 show ?case by simp }
  { case 3 show ?case by simp }
next
  case (Cons n ns)
  { case 1 then show ?case by (simp add: Cons.IH(1) add_artist_if_new_artists(1)) }
  { case 2 show ?case
      using Cons.IH(2)[of "add_artist_if_new w n s"] add_artist_if_new_artists(2)[of s w n]
      by (auto intro: prefix_order.trans) }
  { case 3 show ?case
      by (simp add: Cons.IH(3) add_artist_if_new_artists(3)) }
qed

lemma ingest_track_albums:
  "AlbumStore_albums (ingest_track w fav tg s) =
     AlbumStore_albums s @
       (if albumhash tg \<in> set (album_hashes s) then []
        else [AlbumStore_create_album (Track tg fav)])"
  by (simp add: ingest_track_def Let_def fold_add_artist_frame album_hashes_def
        AlbumStore_album_exists_def AlbumStore_add_album_def TrackStore_add_track_def)

lemma ingest_track_album_hashes:
  "distinct (album_hashes s) \<Longrightarrow> distinct (album_hashes (ingest_track w fav tg s))"
  "set (album_hashes (ingest_track w fav tg s)) = insert (albumhash tg) (set (album_hashes s))"
  "prefix (AlbumStore_albums s) (AlbumStore_albums (ingest_track w fav tg s))"
  by (auto simp: ingest_track_albums album_hashes_def AlbumStore_create_album_def)

lemma ingest_track_artists:
  "distinct (artist_hashes s) \<Longrightarrow> distinct (artist_hashes (ingest_track w fav tg s))"
  "prefix (ArtistStore_artists s) (ArtistStore_artists (ingest_track w fav tg s))"
  "set (artist_hashes (ingest_track w fav tg s)) =
     create_hash w ` (set (artist tg) \<union> set (albumartist tg)) \<union> set (artist_hashes s)"
proof -
  let ?s1 = "TrackStore_add_track (Track tg fav) s"
  let ?s2 = "if \<not> AlbumStore_album_exists (albumhash (Track tg fav)) ?s1
             then AlbumStore_add_album (AlbumStore_create_album (Track tg fav)) ?s1 else ?s1"
  have s2: "ArtistStore_artists ?s2 = ArtistStore_artists s"
    by (simp add: TrackStore_add_track_def AlbumStore_add_album_def)
  then have h2: "artist_hashes ?s2 = artist_hashes s"
    by (simp add: artist_hashes_def)
  have unf: "ingest_track w fav tg s =
    fold (add_artist_if_new w) (albumartist tg) (fold (add_artist_if_new w) (artist tg) ?s2)"
    by (simp add: ingest_track_def Let_def)
  show "distinct (artist_hashes s) \<Longrightarrow> distinct (artist_hashes (ingest_track w fav tg s))"
    unfolding unf using h2 by (simp add: fold_add_artist_artists(1))
  show "prefix (ArtistStore_artists s) (ArtistStore_artists (ingest_track w fav tg s))"
    unfolding unf
    using fold_add_artist_artists(2)[of ?s2 w "artist tg"]
          fold_add_artist_artists(2)[of "fold (add_artist_if_new w) (artist tg) ?s2" w "albumartist tg"]
    unfolding s2 by (rule prefix_order.trans)
  show "set (artist_hashes (ingest_track w fav tg s)) =
     create_hash w ` (set (artist tg) \<union> set (albumartist tg)) \<union> set (artist_hashes s)"
  proof -
    have "set (artist_hashes (ingest_track w fav tg s)) =
          create_hash w ` set (albumartist tg) \<union>
            (create_hash w ` set (artist tg) \<union> set (artist_hashes ?s2))"
      unfolding unf by (simp only: fold_add_artist_artists(3))
    then show ?thesis unfolding h2 by auto
  qed
qed

lemma covered_ingest: "covered w (ingest_track w fav tg s) (Track tg fav)"
  by (simp add: covered_def ingest_track_album_hashes(2) ingest_track_artists(3))

lemma prefix_map_subset: "prefix xs ys \<Longrightarrow> set (map f xs) \<subseteq> set (map f ys)"
  by (auto simp: prefix_def)

lemma covered_mono:
  assumes "covered w s t" "prefix (AlbumStore_albums s) (AlbumStore_albums s')"
    "prefix (ArtistStore_artists s) (ArtistStore_artists s')"
  shows "covered w s' t"
proof -
  have "set (album_hashes s) \<subseteq> set (album_hashes s')"
    unfolding album_hashes_def by (rule prefix_map_subset[OF assms(2)])
  moreover have "set (artist_hashes s) \<subseteq> set (artist_hashes s')"
    unfolding artist_hashes_def by (rule prefix_map_subset[OF assms(3)])
  ultimately show ?thesis using assms(1) unfolding covered_def by blast
qed

lemma exactly_one_of_distinct:
  "distinct (map f xs) \<Longrightarrow> y \<in> set (map f xs) \<Longrightarrow> length (filter (\<lambda>a. f a = y) xs) = 1"
proof (induction xs)
  case Nil
  then show ?case by simp
next
  case (Cons x xs)
  show ?case
  proof (cases "f x = y")
    case True
    with Cons.prems have "y \<notin> f ` set xs" by auto
    then have "filter (\<lambda>a. f a = y) xs = []" by (auto simp: filter_empty_conv)
    with True show ?thesis by simp
  next
    case False
    with Cons show ?thesis by auto
  qed
qed

lemma apply_write_stores [simp]:
  "TrackStore_tracks (apply_write wr s) = TrackStore_tracks s"
  "AlbumStore_albums (apply_write wr s) = AlbumStore_albums s"
  "ArtistStore_artists (apply_write wr s) = ArtistStore_artists s"
  "db_tracks (apply_write wr s) = db_tracks s"
  "events (apply_write wr s) = events s"
  by (simp_all add: apply_write_def split: option.splits)

lemma hashes_simps [simp]:
  "album_hashes (apply_write wr s) = album_hashes s"
  "artist_hashes (apply_write wr s) = artist_hashes s"
  "album_hashes (log e s) = album_hashes s"
  "artist_hashes (log e s) = artist_hashes s"
  by (simp_all add: album_hashes_def artist_hashes_def)

lemma tag_loop_dedup:
  "tag_loop w key fav items (tt, tc, s) = (r, tt', tc', s') \<Longrightarrow>
   distinct (album_hashes s) \<Longrightarrow> distinct (artist_hashes s) \<Longrightarrow>
   distinct (album_hashes s') \<and> distinct (artist_hashes s') \<and>
   prefix (AlbumStore_albums s) (AlbumStore_albums s') \<and>
   prefix (ArtistStore_artists s) (ArtistStore_artists s') \<and>
   (\<forall>t \<in> set (drop (length (TrackStore_tracks s)) (TrackStore_tracks s')). covered w s' t)"
proof (induction items arbitrary: tt tc s)
  case Nil
  then show ?case by simp
next
  case (Cons a items)
  obtain wr fl where a: "a = (wr, fl)" by (cases a)
  let ?s1 = "apply_write wr s"
  show ?case
  proof (cases "POPULATE_KEY ?s1 = key")
    case False
    with Cons.prems show ?thesis
      unfolding a by (auto simp: Let_def)
  next
    case True
    show ?thesis
    proof (cases "get_tags w fl")
      case None
      with True Cons.prems(1)
      have "tag_loop w key fav items (tt, tc, log (Warn_could_not_read fl) ?s1)
            = (r, tt', tc', s')"
        unfolding a by (simp add: Let_def)
      from Cons.IH[OF this] Cons.prems(2,3) show ?thesis by simp
    next
      case (Some tg)
      let ?s2 = "ingest_track w fav tg ?s1"
      from Some True Cons.prems(1)
      have run: "tag_loop w key fav items (tt @ [tg], Suc tc, ?s2) = (r, tt', tc', s')"
        unfolding a by (simp add: Let_def)
      have d2: "distinct (album_hashes ?s2)" "distinct (artist_hashes ?s2)"
        using Cons.prems(2,3)
        by (simp_all add: ingest_track_album_hashes(1) ingest_track_artists(1))
      from Cons.IH[OF run d2] have ih:
        "distinct (album_hashes s')" "distinct (artist_hashes s')"
        "prefix (AlbumStore_albums ?s2) (AlbumStore_albums s')"
        "prefix (ArtistStore_artists ?s2) (ArtistStore_artists s')"
        "\<forall>t \<in> set (drop (length (TrackStore_tracks ?s2)) (TrackStore_tracks s')). covered w s' t"
        by simp_all
      have pa: "prefix (AlbumStore_albums s) (AlbumStore_albums s')"
        using ingest_track_album_hashes(3)[of ?s1 w fav tg] ih(3)
        by (auto intro: prefix_order.trans)
      have pr: "prefix (ArtistStore_artists s) (ArtistStore_artists s')"
        using ingest_track_artists(2)[of ?s1 w fav tg] ih(4)
        by (auto intro: prefix_order.trans)
      have ts2: "TrackStore_tracks ?s2 = TrackStore_tracks s @ [Track tg fav]"
        by (simp add: ingest_track_frame)
      from tag_loop_frame[OF run] obtain zs where
        zs: "TrackStore_tracks s' = (TrackStore_tracks s @ [Track tg fav]) @ zs"
        unfolding ts2 by (auto simp: prefix_def)
      have new: "drop (length (TrackStore_tracks s)) (TrackStore_tracks s') = Track tg fav # zs"
        and new2: "drop (length (TrackStore_tracks ?s2)) (TrackStore_tracks s') = zs"
        unfolding ts2 zs by simp_all
      have "covered w s' (Track tg fav)"
        by (rule covered_mono[OF covered_ingest ih(3) ih(4)])
      with ih(5) have "\<forall>t \<in> set (drop (length (TrackStore_tracks s)) (TrackStore_tracks s')).
                         covered w s' t"
        unfolding new new2 by simp
      with ih(1,2) pa pr show ?thesis by simp
    qed
  qed
qed

text \<open>
  Claim C3. Let no two albums and no two artists of the stores share a hash when
  \<open>tag_untagged\<close> starts, as is the case for empty stores. Then, however the stage ends,
  no two albums and no two artists share a hash afterwards, the stores have only been
  extended, and for every track the stage added there is exactly one album with the
  track's \<open>albumhash\<close> and, for each of its artists and album artists, exactly one artist
  with the hash of that name.
\<close>

theorem tag_untagged_dedup:
  assumes "distinct (map album_albumhash (AlbumStore_albums s))"
      and "distinct (map artisthash (ArtistStore_artists s))"
      and "s' = snd (tag_untagged w items key s)"
  shows "distinct (map album_albumhash (AlbumStore_albums s')) \<and>
         distinct (map artisthash (ArtistStore_artists s')) \<and>
         prefix (AlbumStore_albums s) (AlbumStore_albums s') \<and>
         prefix (ArtistStore_artists s) (ArtistStore_artists s') \<and>
         (\<forall>t \<in> set (drop (length (TrackStore_tracks s)) (TrackStore_tracks s')).
            length (filter (\<lambda>a. album_albumhash a = albumhash t) (AlbumStore_albums s')) = 1 \<and>
            (\<forall>n \<in> set (artist t) \<union> set (albumartist t).
               length (filter (\<lambda>a. artisthash a = create_hash w n) (ArtistStore_artists s')) = 1))"
proof -
  let ?s0 = "log (Info_found_new (length items)) s"
  let ?r = "tag_loop w key (fav_tracks_joined w) items ([], 0, ?s0)"
  obtain r tt tc s1 where r: "?r = (r, tt, tc, s1)" by (cases ?r)
  have st: "TrackStore_tracks s' = TrackStore_tracks s1" "AlbumStore_albums s' = AlbumStore_albums s1"
    "ArtistStore_artists s' = ArtistStore_artists s1"
    using r tag_loop_outcome[OF r] assms(3)
    by (auto simp: tag_untagged_def Let_def insert_many_tracks_def)
  from assms(1,2) have "distinct (album_hashes ?s0)" "distinct (artist_hashes ?s0)"
    by (simp_all add: album_hashes_def artist_hashes_def)
  from tag_loop_dedup[OF r this] have d:
    "distinct (album_hashes s1)" "distinct (artist_hashes s1)"
    "prefix (AlbumStore_albums s) (AlbumStore_albums s1)"
    "prefix (ArtistStore_artists s) (ArtistStore_artists s1)"
    "\<forall>t \<in> set (drop (length (TrackStore_tracks s)) (TrackStore_tracks s1)). covered w s1 t"
    by simp_all
  have one: "length (filter (\<lambda>a. album_albumhash a = albumhash t) (AlbumStore_albums s1)) = 1 \<and>
            (\<forall>n \<in> set (artist t) \<union> set (albumartist t).
               length (filter (\<lambda>a. artisthash a = create_hash w n) (ArtistStore_artists s1)) = 1)"
    if cov: "covered w s1 t" for t
  proof (intro conjI ballI)
    show "length (filter (\<lambda>a. album_albumhash a = albumhash t) (AlbumStore_albums s1)) = 1"
      using exactly_one_of_distinct[of album_albumhash "AlbumStore_albums s1" "albumhash t"]
        cov d(1)
      unfolding covered_def album_hashes_def by blast
  next
    fix n assume "n \<in> set (artist t) \<union> set (albumartist t)"
    then show "length (filter (\<lambda>a. artisthash a = create_hash w n) (ArtistStore_artists s1)) = 1"
      using exactly_one_of_distinct[of artisthash "ArtistStore_artists s1" "create_hash w n"]
        cov d(2)
      unfolding covered_def artist_hashes_def by blast
  qed
  from d one show ?thesis
    unfolding st album_hashes_def artist_hashes_def by blast
qed

theorem tag_untagged_dedup_witness:
  "distinct (map album_albumhash (AlbumStore_albums (empty_state\<lparr>POPULATE_KEY := ''K1''\<rparr>))) \<and>
   distinct (map artisthash (ArtistStore_artists (empty_state\<lparr>POPULATE_KEY := ''K1''\<rparr>))) \<and>
   distinct (map album_albumhash (AlbumStore_albums (snd (tag_untagged example_world
     [(None, ''/music/a.mp3''), (None, ''/music/b.mp3''), (None, ''/music/c.mp3'')] ''K1''
     (empty_state\<lparr>POPULATE_KEY := ''K1''\<rparr>))))) \<and>
   distinct (map artisthash (ArtistStore_artists (snd (tag_untagged example_world
     [(None, ''/music/a.mp3''), (None, ''/music/b.mp3''), (None, ''/music/c.mp3'')] ''K1''
     (empty_state\<lparr>POPULATE_KEY := ''K1''\<rparr>))))) \<and>
   map album_albumhash (AlbumStore_albums (snd (tag_untagged example_world
     [(None, ''/music/a.mp3''), (None, ''/music/b.mp3''), (None, ''/music/c.mp3'')] ''K1''
     (empty_state\<lparr>POPULATE_KEY := ''K1''\<rparr>)))) = [''A'', ''B''] \<and>
   map artisthash (ArtistStore_artists (snd (tag_untagged example_world
     [(None, ''/music/a.mp3''), (None, ''/music/b.mp3''), (None, ''/music/c.mp3'')] ''K1''
     (empty_state\<lparr>POPULATE_KEY := ''K1''\<rparr>)))) = [''#X'', ''#Y''] \<and>
   map trackhash (TrackStore_tracks (snd (tag_untagged example_world
     [(None, ''/music/a.mp3''), (None, ''/music/b.mp3''), (None, ''/music/c.mp3'')] ''K1''
     (empty_state\<lparr>POPULATE_KEY := ''K1''\<rparr>)))) = [''t1'', ''t2'', ''t3'']"
  using tag_untagged_dedup
    [where s = "empty_state\<lparr>POPULATE_KEY := ''K1''\<rparr>" and w = example_world
       and items = "[(None, ''/music/a.mp3''), (None, ''/music/b.mp3''), (None, ''/music/c.mp3'')]"
       and key = "''K1''"
       and s' = "snd (tag_untagged example_world
          [(None, ''/music/a.mp3''), (None, ''/music/b.mp3''), (None, ''/music/c.mp3'')] ''K1''
          (empty_state\<lparr>POPULATE_KEY := ''K1''\<rparr>))"]
  by (simp add: eval_defs sublist_code)

section \<open>What \<open>remove_modified\<close> removes\<close>

lemma remove_modified_deletes_changed:
  assumes readable: "\<forall>t \<in> set tracks. getmtime w (filepath t) \<noteq> None"
      and s': "s' = snd (remove_modified w tracks s)"
  shows "fst (remove_modified w tracks s) = Returns \<and>
         (\<forall>t \<in> set tracks. getmtime w (filepath t) \<noteq> Some (last_mod t) \<longrightarrow>
            filepath t \<notin> filepath ` set (TrackStore_tracks s') \<and>
            filepath t \<notin> filepath ` set (db_tracks s')) \<and>
         (\<forall>x \<in> set (TrackStore_tracks s).
            (\<forall>t \<in> set tracks. filepath t = filepath x \<longrightarrow> getmtime w (filepath t) = Some (last_mod t))
            \<longrightarrow> x \<in> set (TrackStore_tracks s')) \<and>
         (\<forall>x \<in> set (db_tracks s).
            (\<forall>t \<in> set tracks. filepath t = filepath x \<longrightarrow> getmtime w (filepath t) = Some (last_mod t))
            \<longrightarrow> x \<in> set (db_tracks s')) \<and>
         AlbumStore_albums s' = AlbumStore_albums s \<and>
         ArtistStore_artists s' = ArtistStore_artists s"
proof -
  let ?modified = "map filepath (filter (\<lambda>t. Some (last_mod t) \<noteq> getmtime w (filepath t)) tracks)"
  from readable have rm: "remove_modified w tracks s =
    (Returns, remove_tracks_by_filepaths ?modified (TrackStore_remove_tracks_by_filepaths ?modified s))"
    by (simp add: remove_modified_def Let_def)
  have mem: "p \<in> set ?modified \<longleftrightarrow>
             (\<exists>t \<in> set tracks. filepath t = p \<and> getmtime w (filepath t) \<noteq> Some (last_mod t))" for p
    by auto
  have ts: "TrackStore_tracks s' = filter (\<lambda>t. filepath t \<notin> set ?modified) (TrackStore_tracks s)"
    and db: "db_tracks s' = filter (\<lambda>t. filepath t \<notin> set ?modified) (db_tracks s)"
    and al: "AlbumStore_albums s' = AlbumStore_albums s"
    and ar: "ArtistStore_artists s' = ArtistStore_artists s"
    unfolding s' rm
    by (simp_all add: remove_tracks_by_filepaths_def TrackStore_remove_tracks_by_filepaths_def)
  have gone: "filepath t \<notin> filepath ` set (TrackStore_tracks s') \<and>
              filepath t \<notin> filepath ` set (db_tracks s')"
    if "t \<in> set tracks" "getmtime w (filepath t) \<noteq> Some (last_mod t)" for t
  proof -
    from that have "filepath t \<in> set ?modified" unfolding mem by blast
    then show ?thesis unfolding ts db by (auto simp del: set_map)
  qed
  have kept: "filepath x \<notin> set ?modified"
    if "\<forall>t \<in> set tracks. filepath t = filepath x \<longrightarrow> getmtime w (filepath t) = Some (last_mod t)"
    for x :: "'a tags_scheme"
    using that unfolding mem by blast
  have k1: "x \<in> set (TrackStore_tracks s')"
    if "x \<in> set (TrackStore_tracks s)"
       "\<forall>t \<in> set tracks. filepath t = filepath x \<longrightarrow> getmtime w (filepath t) = Some (last_mod t)"
    for x
    using that(1) kept[OF that(2)] unfolding ts by (simp del: set_map)
  have k2: "x \<in> set (db_tracks s')"
    if "x \<in> set (db_tracks s)"
       "\<forall>t \<in> set tracks. filepath t = filepath x \<longrightarrow> getmtime w (filepath t) = Some (last_mod t)"
    for x
    using that(1) kept[OF that(2)] unfolding db by (simp del: set_map)
  from rm gone k1 k2 al ar show ?thesis by auto
qed

section \<open>The stages after tag ingestion\<close>

lemma run_stage_frame [simp]:
  "events (run_stage f e s) = events s @ [e]"
  "POPULATE_KEY (run_stage f e s) = POPULATE_KEY s"
  "catalog_of (run_stage f e s) = catalog_of (f s)"
  by (simp_all add: run_stage_def catalog_of_def)

lemma catalog_of_simps [simp]:
  "catalog_of (log e s) = catalog_of s"
  "catalog_of (ProcessTrackThumbnails s) = catalog_of s"
  by (simp_all add: catalog_of_def ProcessTrackThumbnails_def)

lemma get_image_events: "set (get_image s a) \<subseteq> range (\<lambda>(p, i). Call_extract_thumb p i)"
  by (auto simp: get_image_def split: list.splits)

lemma thumbs_count:
  "e \<notin> range (\<lambda>(p, i). Call_extract_thumb p i) \<Longrightarrow>
   count_list (concat (map (get_image s) as)) e = 0"
proof (induction as)
  case Nil
  then show ?case by simp
next
  case (Cons a as)
  have "e \<notin> set (get_image s a)" using get_image_events[of s a] Cons.prems by blast
  with Cons show ?case by simp
qed

lemma first_stages_events:
  "events (first_stages w s) =
     events s @ [Call_ProcessTrackThumbnails] @ concat (map (get_image s) (AlbumStore_albums s))
       @ [Call_ProcessAlbumColors, Call_ProcessArtistColors]"
  by (simp add: first_stages_def Let_def ProcessTrackThumbnails_def)

lemma first_stages_catalog:
  "keeps_catalog (ProcessAlbumColors w) \<Longrightarrow> keeps_catalog (ProcessArtistColors w) \<Longrightarrow>
   catalog_of (first_stages w s) = catalog_of s"
  by (simp add: first_stages_def Let_def keeps_catalog_def)

lemma call_CheckArtistImages_frame:
  "fst (call_CheckArtistImages w s) = fst (CheckArtistImages w s)"
  "events (snd (call_CheckArtistImages w s)) = events s @ [Call_CheckArtistImages]"
  "catalog_of (snd (call_CheckArtistImages w s)) = catalog_of (snd (CheckArtistImages w s))"
  by (simp_all add: call_CheckArtistImages_def catalog_of_def split: prod.splits)

lemma post_stages_cases:
  "post_stages w s =
    (if Ping w then
       (case fst (CheckArtistImages w (first_stages w s)) of
          None \<Rightarrow> (Returns, run_stage (ProcessArtistColors w) Call_ProcessArtistColors
                      (snd (call_CheckArtistImages w (first_stages w s))))
        | Some e \<Rightarrow>
            if e = RequestConnectionError \<or> e = ReadTimeout
            then (Returns, run_stage (ProcessArtistColors w) Call_ProcessArtistColors
                    (log Error_connection_lost (snd (call_CheckArtistImages w (first_stages w s)))))
            else (Raises (Uncaught e), snd (call_CheckArtistImages w (first_stages w s))))
     else (Returns, log Warn_no_internet (first_stages w s)))"
  by (auto simp: post_stages_def Let_def call_CheckArtistImages_def split: prod.splits option.splits)

lemma tag_untagged_unfold:
  assumes "tag_loop w key (fav_tracks_joined w) items
             ([], 0, log (Info_found_new (length items)) s) = (r, tt, tc, s1)"
  shows "tag_untagged w items key s =
          (if r = Returns
           then (Returns, log (Info_added tc (length items))
                   (if tt \<noteq> [] then insert_many_tracks tt (log (Info_adding (length tt)) s1)
                    else s1))
           else (Raises PopulateCancelledError, s1))"
  using assms tag_loop_outcome[OF assms]
  by (auto simp: tag_untagged_def Let_def)

lemma tag_untagged_outcome:
  "fst (tag_untagged w items key s) = Returns \<or>
   fst (tag_untagged w items key s) = Raises PopulateCancelledError"
proof -
  obtain r tt tc s1 where
    "tag_loop w key (fav_tracks_joined w) items
       ([], 0, log (Info_found_new (length items)) s) = (r, tt, tc, s1)"
    by (cases "tag_loop w key (fav_tracks_joined w) items
                 ([], 0, log (Info_found_new (length items)) s)")
  from tag_untagged_unfold[OF this] show ?thesis by simp
qed

lemma remove_modified_outcome:
  "fst (remove_modified w tr s) = Returns \<or> fst (remove_modified w tr s) = Raises OSError"
  by (simp add: remove_modified_def Let_def)

lemma untagged_items_empty:
  "untagged_items w s1 = [] \<longleftrightarrow> filter_untagged (get_all_tracks s1) (scan_files w) = []"
  by (simp add: untagged_items_def Let_def)

lemma Populate_init_cases [case_names no_roots stat_error cancelled staged]:
  obtains
    (no_roots) "root_dirs w = []"
      "Populate_init w key s = (Returns, log Warn_root_not_configured (validated w key s))"
  | (stat_error) "root_dirs w \<noteq> []"
      "remove_modified w (get_all_tracks (validated w key s)) (validated w key s)
         = (Raises OSError, validated w key s)"
      "Populate_init w key s = (Raises OSError, validated w key s)"
  | (cancelled) s2 s3 where "root_dirs w \<noteq> []"
      "remove_modified w (get_all_tracks (validated w key s)) (validated w key s) = (Returns, s2)"
      "untagged_items w (validated w key s) \<noteq> []"
      "tag_untagged w (untagged_items w (validated w key s)) key s2
         = (Raises PopulateCancelledError, s3)"
      "Populate_init w key s = (Raises PopulateCancelledError, s3)"
  | (staged) s2 s3 where "root_dirs w \<noteq> []"
      "remove_modified w (get_all_tracks (validated w key s)) (validated w key s) = (Returns, s2)"
      "untagged_items w (validated w key s) = [] \<and> s3 = s2 \<or>
       untagged_items w (validated w key s) \<noteq> [] \<and>
       tag_untagged w (untagged_items w (validated w key s)) key s2 = (Returns, s3)"
      "Populate_init w key s = post_stages w s3"
proof -
  let ?s1 = "validated w key s"
  let ?items = "untagged_items w ?s1"
  have unf: "Populate_init w key s =
     (if root_dirs w = [] then (Returns, log Warn_root_not_configured ?s1)
      else (case remove_modified w (get_all_tracks ?s1) ?s1 of
              (Raises e, s2) \<Rightarrow> (Raises e, s2)
            | (Returns, s2) \<Rightarrow>
                (case (if ?items \<noteq> [] then tag_untagged w ?items key s2 else (Returns, s2)) of
                   (Raises e, s3) \<Rightarrow> (Raises e, s3)
                 | (Returns, s3) \<Rightarrow> post_stages w s3)))"
    by (auto simp: Populate_init_def validated_def untagged_items_def Let_def
          split: prod.splits outcome.splits)
  show thesis
  proof (cases "root_dirs w = []")
    case True
    with unf show ?thesis by (intro no_roots) simp_all
  next
    case roots: False
    obtain r1 s2 where rm: "remove_modified w (get_all_tracks ?s1) ?s1 = (r1, s2)"
      by (cases "remove_modified w (get_all_tracks ?s1) ?s1")
    show ?thesis
    proof (cases "r1 = Returns")
      case False
      with rm have "r1 = Raises OSError" "s2 = ?s1"
        by (auto simp: remove_modified_def Let_def split: if_splits)
      with rm unf roots show ?thesis by (intro stat_error) simp_all
    next
      case r1: True
      show ?thesis
      proof (cases "?items = []")
        case True
        with unf roots rm r1 show ?thesis by (intro staged[of s2 s2]) simp_all
      next
        case items: False
        obtain r2 s3 where tu: "tag_untagged w ?items key s2 = (r2, s3)"
          by (cases "tag_untagged w ?items key s2")
        from tag_untagged_outcome[of w ?items key s2] tu
        consider "r2 = Returns" | "r2 = Raises PopulateCancelledError" by auto
        then show ?thesis
        proof cases
          case 1
          with unf roots rm r1 items tu show ?thesis by (intro staged[of s2 s3]) simp_all
        next
          case 2
          with unf roots rm r1 items tu show ?thesis by (intro cancelled[of s2 s3]) simp_all
        qed
      qed
    qed
  qed
qed

lemma map_snd_untagged_items:
  "map snd (untagged_items w s1) = filter_untagged (get_all_tracks s1) (scan_files w)"
  by (simp add: untagged_items_def Let_def)

lemma count_thumbs_PAC [simp]:
  "count_list (concat (map (get_image s) as)) Call_ProcessArtistColors = 0"
  by (rule thumbs_count) auto

lemma ingest_track_prefixes:
  "prefix (AlbumStore_albums s) (AlbumStore_albums (ingest_track w fav tg s))"
  "prefix (ArtistStore_artists s) (ArtistStore_artists (ingest_track w fav tg s))"
  by (rule ingest_track_album_hashes(3), rule ingest_track_artists(2))

lemma tag_loop_grows:
  "tag_loop w key fav items (tt, tc, s) = (r, tt', tc', s') \<Longrightarrow>
   prefix (AlbumStore_albums s) (AlbumStore_albums s') \<and>
   prefix (ArtistStore_artists s) (ArtistStore_artists s') \<and>
   (\<exists>ws. events s' = events s @ map Warn_could_not_read ws)"
proof (induction items arbitrary: tt tc s)
  case Nil
  then show ?case by simp
next
  case (Cons a items)
  obtain wr fl where a: "a = (wr, fl)" by (cases a)
  let ?s1 = "apply_write wr s"
  show ?case
  proof (cases "POPULATE_KEY ?s1 = key")
    case False
    with Cons.prems show ?thesis
      unfolding a by (auto simp: Let_def)
  next
    case True
    show ?thesis
    proof (cases "get_tags w fl")
      case None
      with True Cons.prems
      have "tag_loop w key fav items (tt, tc, log (Warn_could_not_read fl) ?s1)
            = (r, tt', tc', s')"
        unfolding a by (simp add: Let_def)
      from Cons.IH[OF this] obtain ws where
        "prefix (AlbumStore_albums s) (AlbumStore_albums s')"
        "prefix (ArtistStore_artists s) (ArtistStore_artists s')"
        "events s' = events s @ map Warn_could_not_read (fl # ws)"
        by auto
      then show ?thesis by blast
    next
      case (Some tg)
      let ?s2 = "ingest_track w fav tg ?s1"
      from Some True Cons.prems
      have "tag_loop w key fav items (tt @ [tg], Suc tc, ?s2) = (r, tt', tc', s')"
        unfolding a by (simp add: Let_def)
      from Cons.IH[OF this] obtain ws where ih:
        "prefix (AlbumStore_albums ?s2) (AlbumStore_albums s')"
        "prefix (ArtistStore_artists ?s2) (ArtistStore_artists s')"
        "events s' = events ?s2 @ map Warn_could_not_read ws"
        by auto
      have "prefix (AlbumStore_albums s) (AlbumStore_albums s')"
        using ingest_track_prefixes(1)[of ?s1 w fav tg] ih(1)
        by (auto intro: prefix_order.trans)
      moreover have "prefix (ArtistStore_artists s) (ArtistStore_artists s')"
        using ingest_track_prefixes(2)[of ?s1 w fav tg] ih(2)
        by (auto intro: prefix_order.trans)
      moreover have "events s' = events s @ map Warn_could_not_read ws"
        using ih(3) by (simp add: ingest_track_frame)
      ultimately show ?thesis by blast
    qed
  qed
qed

lemma tag_untagged_cancelled_state:
  assumes "tag_untagged w items key s = (Raises e, s')"
  shows "db_tracks s' = db_tracks s \<and>
         prefix (TrackStore_tracks s) (TrackStore_tracks s') \<and>
         prefix (AlbumStore_albums s) (AlbumStore_albums s') \<and>
         prefix (ArtistStore_artists s) (ArtistStore_artists s') \<and>
         (\<exists>ws. events s' = events s @ Info_found_new (length items) # map Warn_could_not_read ws)"
proof -
  let ?s0 = "log (Info_found_new (length items)) s"
  obtain r tt tc s1 where r:
    "tag_loop w key (fav_tracks_joined w) items ([], 0, ?s0) = (r, tt, tc, s1)"
    by (cases "tag_loop w key (fav_tracks_joined w) items ([], 0, ?s0)")
  from tag_untagged_unfold[OF r] assms have s1: "s' = s1"
    by (auto split: if_splits)
  from tag_loop_frame[OF r] tag_loop_grows[OF r] show ?thesis
    unfolding s1 by auto
qed

lemmas run_defs =
  Populate_init_def post_stages_def first_stages_def call_CheckArtistImages_def
  ProcessTrackThumbnails_def get_image_def remove_modified_def get_all_tracks_def
  filter_untagged_def scan_files_def dirs_to_scan_def validated_def untagged_items_def

section \<open>A cancelled run\<close>

lemma validated_POPULATE_KEY: "POPULATE_KEY (validated w key s) = key"
  by (simp add: validated_def)

lemma remove_modified_frame:
  "POPULATE_KEY (snd (remove_modified w tr s)) = POPULATE_KEY s"
  "events (snd (remove_modified w tr s)) = events s"
  by (simp_all add: remove_modified_def Let_def remove_tracks_by_filepaths_def
        TrackStore_remove_tracks_by_filepaths_def)

lemma tag_untagged_raises_iff:
  "fst (tag_untagged w items key s) = Raises PopulateCancelledError \<longleftrightarrow>
   (\<exists>k \<in> set (observed_keys (POPULATE_KEY s) (map fst items)). k \<noteq> key)"
proof -
  let ?s0 = "log (Info_found_new (length items)) s"
  obtain r tt tc s1 where r:
    "tag_loop w key (fav_tracks_joined w) items ([], 0, ?s0) = (r, tt, tc, s1)"
    by (cases "tag_loop w key (fav_tracks_joined w) items ([], 0, ?s0)")
  from tag_loop_returns_iff[of w key "fav_tracks_joined w" items "[]" 0 ?s0] r
  have "r = Returns \<longleftrightarrow>
        (\<forall>k \<in> set (observed_keys (POPULATE_KEY s) (map fst items)). k = key)"
    by simp
  with tag_untagged_unfold[OF r] show ?thesis by auto
qed

text \<open>
  Claim C5, as the code has it. Let a root be configured, let \<open>remove_modified\<close> return,
  and let some per-file check of the tag ingestion read a key other than the one the run
  was started with. Then \<open>Populate.__init__\<close> ends with \<open>PopulateCancelledError\<close>: the
  exception leaves the call. The track table is as \<open>remove_modified\<close> left it (the bulk
  insert is skipped), the three stores extend what they held when the stage began, and the
  trace of the run holds the validation, the line announcing the new files and warnings
  for unreadable files, and nothing else: no later stage of the run is executed.
\<close>

theorem key_change_ends_the_run:
  assumes roots: "root_dirs w \<noteq> []"
    and v: "v = validated w key s"
    and removed: "fst (remove_modified w (get_all_tracks v) v) = Returns"
    and s2: "s2 = snd (remove_modified w (get_all_tracks v) v)"
    and differs: "\<exists>k \<in> set (observed_keys key (map fst (untagged_items w v))). k \<noteq> key"
    and s3: "s3 = snd (Populate_init w key s)"
  shows "fst (Populate_init w key s) = Raises PopulateCancelledError \<and>
         db_tracks s3 = db_tracks s2 \<and>
         prefix (TrackStore_tracks s2) (TrackStore_tracks s3) \<and>
         prefix (AlbumStore_albums s2) (AlbumStore_albums s3) \<and>
         prefix (ArtistStore_artists s2) (ArtistStore_artists s3) \<and>
         (\<exists>ws. events s3 =
                 events s @ [Call_validate_tracks, Info_found_new (length (untagged_items w v))]
                   @ map Warn_could_not_read ws)"
proof -
  let ?items = "untagged_items w v"
  have key2: "POPULATE_KEY s2 = key"
    unfolding s2 v by (simp add: remove_modified_frame validated_POPULATE_KEY)
  have ev2: "events s2 = events s @ [Call_validate_tracks]"
    unfolding s2 v by (simp add: remove_modified_frame validated_def)
  from differs have items: "?items \<noteq> []" by auto
  from differs have raises: "fst (tag_untagged w ?items key s2) = Raises PopulateCancelledError"
    unfolding tag_untagged_raises_iff key2 .
  obtain t3 where tu: "tag_untagged w ?items key s2 = (Raises PopulateCancelledError, t3)"
    using raises by (cases "tag_untagged w ?items key s2") simp
  have run: "Populate_init w key s = (Raises PopulateCancelledError, t3)"
  proof (cases w key s rule: Populate_init_cases)
    case no_roots
    with roots show ?thesis by simp
  next
    case stat_error
    with removed show ?thesis unfolding v by simp
  next
    case (cancelled u2 u3)
    from cancelled(2) have "u2 = s2" unfolding s2 v by simp
    with cancelled(4,5) tu show ?thesis unfolding v by simp
  next
    case (staged u2 u3)
    from staged(2) have "u2 = s2" unfolding s2 v by simp
    with staged(3) items tu show ?thesis unfolding v by simp
  qed
  then have eq: "s3 = t3" unfolding s3 by simp
  from tag_untagged_cancelled_state[OF tu] run show ?thesis
    unfolding eq using ev2 by auto
qed

theorem key_change_ends_the_run_witness:
  "root_dirs cancel_world \<noteq> [] \<and>
   fst (remove_modified cancel_world
          (get_all_tracks (validated cancel_world ''K1'' empty_state))
          (validated cancel_world ''K1'' empty_state)) = Returns \<and>
   observed_keys ''K1''
     (map fst (untagged_items cancel_world (validated cancel_world ''K1'' empty_state)))
     = [''K1'', ''K2'', ''K2''] \<and>
   fst (Populate_init cancel_world ''K1'' empty_state) = Raises PopulateCancelledError \<and>
   db_tracks (snd (Populate_init cancel_world ''K1'' empty_state)) = [] \<and>
   length (TrackStore_tracks (snd (Populate_init cancel_world ''K1'' empty_state))) = 1"
  using key_change_ends_the_run
    [where w = cancel_world and key = "''K1''" and s = empty_state
       and v = "validated cancel_world ''K1'' empty_state"
       and ?s2.0 = "snd (remove_modified cancel_world
              (get_all_tracks (validated cancel_world ''K1'' empty_state))
              (validated cancel_world ''K1'' empty_state))"
       and ?s3.0 = "snd (Populate_init cancel_world ''K1'' empty_state)"]
  by (simp add: cancel_world_def run_defs eval_defs sublist_code)

text \<open>
  The claim as stated fails: the cancellation leaves \<open>Populate.__init__\<close> as an exception,
  and the thumbnail, colour and enrichment stages of that run are not executed.
\<close>

theorem cancellation_skips_later_stages:
  "fst (Populate_init cancel_world ''K1'' empty_state) = Raises PopulateCancelledError \<and>
   events (snd (Populate_init cancel_world ''K1'' empty_state))
     = [Call_validate_tracks, Info_found_new 3] \<and>
   Call_ProcessTrackThumbnails \<notin> set (events (snd (Populate_init cancel_world ''K1'' empty_state))) \<and>
   Call_ProcessAlbumColors \<notin> set (events (snd (Populate_init cancel_world ''K1'' empty_state))) \<and>
   Call_CheckArtistImages \<notin> set (events (snd (Populate_init cancel_world ''K1'' empty_state)))"
  by (simp add: cancel_world_def Populate_init_def remove_modified_def get_all_tracks_def
        filter_untagged_def scan_files_def dirs_to_scan_def eval_defs sublist_code)

section \<open>A network failure during enrichment\<close>

text \<open>
  Claim C6. Let the probe report the network reachable and let \<open>CheckArtistImages\<close> raise
  \<open>RequestConnectionError\<close> or \<open>ReadTimeout\<close>. Then the stages return normally; the trace
  continues with the call, the logged error and the second colour pass for artists; if the
  colour stages and \<open>CheckArtistImages\<close> themselves leave tracks, albums, artists and the
  track table as they are, so does the whole sequence of stages. No run of
  \<open>Populate.__init__\<close> ends with either of the two exceptions.
\<close>

theorem enrichment_failure_is_contained:
  assumes "Ping w"
      and "fst (CheckArtistImages w (first_stages w s)) = Some e"
      and "e = RequestConnectionError \<or> e = ReadTimeout"
  shows "fst (post_stages w s) = Returns \<and>
         events (snd (post_stages w s)) =
           events (first_stages w s) @
             [Call_CheckArtistImages, Error_connection_lost, Call_ProcessArtistColors] \<and>
         (keeps_catalog (ProcessAlbumColors w) \<and> keeps_catalog (ProcessArtistColors w) \<and>
          keeps_catalog (\<lambda>s. snd (CheckArtistImages w s)) \<longrightarrow>
            catalog_of (snd (post_stages w s)) = catalog_of s) \<and>
         (\<forall>key s0. fst (Populate_init w key s0) \<noteq> Raises (Uncaught RequestConnectionError) \<and>
                   fst (Populate_init w key s0) \<noteq> Raises (Uncaught ReadTimeout))"
proof -
  have ps: "post_stages w s =
      (Returns, run_stage (ProcessArtistColors w) Call_ProcessArtistColors
                  (log Error_connection_lost (snd (call_CheckArtistImages w (first_stages w s)))))"
    using assms by (simp add: post_stages_cases)
  have ev: "events (snd (post_stages w s)) =
           events (first_stages w s) @
             [Call_CheckArtistImages, Error_connection_lost, Call_ProcessArtistColors]"
    unfolding ps by (simp add: call_CheckArtistImages_frame)
  have cat: "catalog_of (snd (post_stages w s)) = catalog_of s"
    if "keeps_catalog (ProcessAlbumColors w)" "keeps_catalog (ProcessArtistColors w)"
       "keeps_catalog (\<lambda>s. snd (CheckArtistImages w s))"
  proof -
    have "catalog_of (snd (post_stages w s)) =
          catalog_of (snd (CheckArtistImages w (first_stages w s)))"
      unfolding ps using that(2) by (simp add: keeps_catalog_def call_CheckArtistImages_frame)
    also have "\<dots> = catalog_of (first_stages w s)"
      using that(3) by (simp add: keeps_catalog_def)
    also have "\<dots> = catalog_of s"
      by (rule first_stages_catalog[OF that(1,2)])
    finally show ?thesis .
  qed
  have nr: "fst (post_stages w s') \<noteq> Raises (Uncaught RequestConnectionError) \<and>
            fst (post_stages w s') \<noteq> Raises (Uncaught ReadTimeout)" for s'
    by (simp add: post_stages_cases split: option.splits)
  have pop: "fst (Populate_init w key s0) \<noteq> Raises (Uncaught RequestConnectionError) \<and>
             fst (Populate_init w key s0) \<noteq> Raises (Uncaught ReadTimeout)" for key s0
  proof -
    show ?thesis
      by (cases w key s0 rule: Populate_init_cases) (simp_all add: nr)
  qed
  from ps ev cat pop show ?thesis by simp
qed

theorem enrichment_failure_is_contained_witness:
  "Ping netfail_world \<and>
   fst (CheckArtistImages netfail_world (first_stages netfail_world empty_state))
     = Some RequestConnectionError \<and>
   fst (post_stages netfail_world empty_state) = Returns \<and>
   events (snd (post_stages netfail_world empty_state))
     = [Call_ProcessTrackThumbnails, Call_ProcessAlbumColors, Call_ProcessArtistColors,
        Call_CheckArtistImages, Error_connection_lost, Call_ProcessArtistColors] \<and>
   catalog_of (snd (post_stages netfail_world empty_state)) = catalog_of empty_state \<and>
   fst (Populate_init netfail_world ''K1'' empty_state)
     \<noteq> Raises (Uncaught RequestConnectionError)"
  using enrichment_failure_is_contained
    [where w = netfail_world and s = empty_state and e = RequestConnectionError]
  by (simp add: netfail_world_def example_world_def keeps_catalog_def first_stages_events
        empty_state_def)

section \<open>The second colour pass\<close>

text \<open>
  Claim C7, as the code has it. After the first colour pass, \<open>ProcessArtistColors\<close> is
  invoked a second time exactly when the probe reported the network reachable and
  \<open>CheckArtistImages\<close> either completed or failed with \<open>RequestConnectionError\<close> or
  \<open>ReadTimeout\<close>; otherwise it is invoked once.
\<close>

theorem artist_colors_rerun_when_attempted:
  "count_list (drop (length (events s)) (events (snd (post_stages w s)))) Call_ProcessArtistColors
     = (if Ping w \<and> fst (CheckArtistImages w (first_stages w s))
                       \<in> {None, Some RequestConnectionError, Some ReadTimeout}
        then 2 else 1)"
  by (auto simp: post_stages_cases call_CheckArtistImages_frame first_stages_events
        split: option.splits)

theorem artist_colors_rerun_when_attempted_witness:
  "count_list (drop (length (events empty_state))
      (events (snd (post_stages example_world empty_state)))) Call_ProcessArtistColors = 2 \<and>
   count_list (drop (length (events empty_state))
      (events (snd (post_stages (example_world\<lparr>Ping := False\<rparr>) empty_state))))
      Call_ProcessArtistColors = 1"
  using artist_colors_rerun_when_attempted [of empty_state example_world]
    artist_colors_rerun_when_attempted [of empty_state "example_world\<lparr>Ping := False\<rparr>"]
  by (simp add: example_world_def)

text \<open>
  The claim as stated fails: when the download of artist images fails with a connection
  error, the error is logged and \<open>ProcessArtistColors\<close> runs a second time all the same.
\<close>

theorem artist_colors_rerun_after_network_failure:
  "fst (Populate_init netfail_world ''K1'' empty_state) = Returns \<and>
   events (snd (Populate_init netfail_world ''K1'' empty_state))
     = [Call_validate_tracks, Info_found_new 3, Info_adding 3, Info_added 3 3,
        Call_ProcessTrackThumbnails,
        Call_extract_thumb ''/music/a.mp3'' ''A.webp'',
        Call_extract_thumb ''/music/c.mp3'' ''B.webp'',
        Call_ProcessAlbumColors, Call_ProcessArtistColors,
        Call_CheckArtistImages, Error_connection_lost, Call_ProcessArtistColors] \<and>
   count_list (events (snd (Populate_init netfail_world ''K1'' empty_state)))
     Call_ProcessArtistColors = 2"
  by (simp add: netfail_world_def run_defs eval_defs sublist_code)

section \<open>The directories scanned\<close>

text \<open>
  Claim C9, as the code has it. Let at least one root be configured. If the first root is
  not the sentinel \<open>$home\<close>, the scan yields the files beneath every configured root, and
  only those. If the first root is the sentinel, the scan yields the files beneath the
  home directory, whatever roots follow it. The files handed to tag ingestion are the
  scanned files that no known track has as its path.
\<close>

theorem scan_files_roots:
  assumes "root_dirs w \<noteq> []"
  shows "(hd (root_dirs w) \<noteq> ''$home'' \<longrightarrow>
           set (scan_files w) = (\<Union>d \<in> set (root_dirs w). set (run_fast_scandir w d))) \<and>
         (hd (root_dirs w) = ''$home'' \<longrightarrow>
           scan_files w = run_fast_scandir w (USER_HOME_DIR w)) \<and>
         set (map snd (untagged_items w s1))
           = set (scan_files w) - filepath ` set (get_all_tracks s1)"
proof -
  obtain d ds where r: "root_dirs w = d # ds" using assms by (cases "root_dirs w") auto
  have "hd (root_dirs w) \<noteq> ''$home'' \<Longrightarrow>
        set (scan_files w) = (\<Union>d \<in> set (root_dirs w). set (run_fast_scandir w d))"
    by (auto simp: scan_files_def dirs_to_scan_def r)
  moreover have "hd (root_dirs w) = ''$home'' \<Longrightarrow>
        scan_files w = run_fast_scandir w (USER_HOME_DIR w)"
    by (simp add: scan_files_def dirs_to_scan_def r)
  moreover have "set (map snd (untagged_items w s1))
           = set (scan_files w) - filepath ` set (get_all_tracks s1)"
    unfolding map_snd_untagged_items by (auto simp: filter_untagged_def Let_def)
  ultimately show ?thesis by blast
qed

theorem scan_files_roots_witness:
  "root_dirs example_world \<noteq> [] \<and>
   set (scan_files example_world)
     = {''/music/a.mp3'', ''/music/b.mp3'', ''/music/c.mp3''} \<and>
   root_dirs (example_world\<lparr>root_dirs := [''$home'']\<rparr>) \<noteq> [] \<and>
   scan_files (example_world\<lparr>root_dirs := [''$home'']\<rparr>) = [''/home/u/h.mp3'']"
  using scan_files_roots [of example_world empty_state]
    scan_files_roots [of "example_world\<lparr>root_dirs := [''$home'']\<rparr>" empty_state]
  by (simp add: example_world_def)

text \<open>
  The claim as stated fails: with the roots \<open>$home\<close> and \<open>/music\<close> configured in this
  order, only the home directory is scanned, and the files beneath \<open>/music\<close> are not
  among the candidates.
\<close>

theorem later_roots_dropped_after_home:
  "root_dirs two_roots_world = [''$home'', ''/music''] \<and>
   ''/music/a.mp3'' \<in> set (run_fast_scandir two_roots_world ''/music'') \<and>
   scan_files two_roots_world = [''/home/u/h.mp3''] \<and>
   ''/music/a.mp3'' \<notin> set (scan_files two_roots_world)"
  by (simp add: two_roots_world_def scan_files_def dirs_to_scan_def example_world_def)

section \<open>Two runs in a row\<close>


lemma validated_catalog:
  "keeps_catalog (validate_tracks w) \<Longrightarrow> catalog_of (validated w key s) = catalog_of s"
  by (simp add: validated_def keeps_catalog_def) (simp add: catalog_of_def)



lemma remove_modified_result:
  "\<exists>m. TrackStore_tracks (snd (remove_modified w tr s))
          = filter (\<lambda>t. filepath t \<notin> set m) (TrackStore_tracks s) \<and>
       db_tracks (snd (remove_modified w tr s)) = filter (\<lambda>t. filepath t \<notin> set m) (db_tracks s) \<and>
       AlbumStore_albums (snd (remove_modified w tr s)) = AlbumStore_albums s \<and>
       ArtistStore_artists (snd (remove_modified w tr s)) = ArtistStore_artists s"
proof (cases "\<exists>t \<in> set tr. getmtime w (filepath t) = None")
  case True
  then have "remove_modified w tr s = (Raises OSError, s)"
    by (simp add: remove_modified_def)
  then show ?thesis by (intro exI[of _ "[]"]) simp
next
  case False
  let ?m = "map filepath (filter (\<lambda>t. Some (last_mod t) \<noteq> getmtime w (filepath t)) tr)"
  from False have rm: "remove_modified w tr s =
      (Returns, remove_tracks_by_filepaths ?m (TrackStore_remove_tracks_by_filepaths ?m s))"
    by (simp add: remove_modified_def Let_def)
  show ?thesis
    unfolding rm
    by (intro exI[of _ ?m])
       (simp add: remove_tracks_by_filepaths_def TrackStore_remove_tracks_by_filepaths_def
          del: set_map)
qed









lemmas world_defs =
  checked_world_def touched_world_def cancel_checked_world_def all_touched_world_def
  drop_unreadable_def

lemma library_state_reachable:
  "catalog_of (snd (Populate_init checked_world ''K0'' empty_state)) = catalog_of library_state"
  by (simp add: checked_world_def drop_unreadable_def library_state_def catalog_of_def
        run_defs eval_defs sublist_code)




section \<open>Stale tracks are removed before ingestion\<close>

lemma Populate_init_after_removal:
  assumes "root_dirs w \<noteq> []"
    and "fst (remove_modified w (get_all_tracks (validated w key s)) (validated w key s)) = Returns"
  shows "Populate_init w key s =
          (case (if untagged_items w (validated w key s) \<noteq> []
                 then tag_untagged w (untagged_items w (validated w key s)) key
                        (snd (remove_modified w (get_all_tracks (validated w key s))
                                (validated w key s)))
                 else (Returns, snd (remove_modified w (get_all_tracks (validated w key s))
                                       (validated w key s)))) of
             (Raises e, s3) \<Rightarrow> (Raises e, s3)
           | (Returns, s3) \<Rightarrow> post_stages w s3)"
proof (cases w key s rule: Populate_init_cases)
  case no_roots
  with assms(1) show ?thesis by simp
next
  case stat_error
  with assms(2) show ?thesis by simp
next
  case (cancelled u2 u3)
  then show ?thesis by simp
next
  case (staged u2 u3)
  then show ?thesis by auto
qed

text \<open>
  Claim C4, as the code has it. Take a run with a root configured, and let \<open>validate_tracks\<close>
  have left no track of an unreadable file in either store. Then \<open>remove_modified\<close>
  returns, and in the state it leaves neither the Track store nor the track table holds
  an entry under the file path of a track of the table whose recorded \<open>last_mod\<close> differs
  from the file's time stamp, nor an entry of an unreadable file; every entry whose file
  path is not that of such a track is kept. Tag ingestion, when there is any, starts from
  that state. The tracks examined are those of the table, as read on line 49.
\<close>

theorem stale_tracks_removed_before_ingestion:
  assumes roots: "root_dirs w \<noteq> []"
    and v: "v = validated w key s"
    and readable: "\<forall>t \<in> set (TrackStore_tracks v). getmtime w (filepath t) \<noteq> None"
      "\<forall>t \<in> set (db_tracks v). getmtime w (filepath t) \<noteq> None"
    and s2: "s2 = snd (remove_modified w (get_all_tracks v) v)"
  shows "fst (remove_modified w (get_all_tracks v) v) = Returns \<and>
         (\<forall>t \<in> set (get_all_tracks v). getmtime w (filepath t) \<noteq> Some (last_mod t) \<longrightarrow>
            filepath t \<notin> filepath ` set (TrackStore_tracks s2) \<and>
            filepath t \<notin> filepath ` set (db_tracks s2)) \<and>
         (\<forall>x \<in> set (TrackStore_tracks s2). getmtime w (filepath x) \<noteq> None) \<and>
         (\<forall>x \<in> set (db_tracks s2). getmtime w (filepath x) \<noteq> None) \<and>
         (\<forall>x \<in> set (TrackStore_tracks v).
            (\<forall>t \<in> set (get_all_tracks v).
               filepath t = filepath x \<longrightarrow> getmtime w (filepath t) = Some (last_mod t))
            \<longrightarrow> x \<in> set (TrackStore_tracks s2)) \<and>
         (\<forall>x \<in> set (db_tracks v).
            (\<forall>t \<in> set (get_all_tracks v).
               filepath t = filepath x \<longrightarrow> getmtime w (filepath t) = Some (last_mod t))
            \<longrightarrow> x \<in> set (db_tracks s2)) \<and>
         Populate_init w key s =
           (case (if untagged_items w v \<noteq> [] then tag_untagged w (untagged_items w v) key s2
                  else (Returns, s2)) of
              (Raises e, s3) \<Rightarrow> (Raises e, s3)
            | (Returns, s3) \<Rightarrow> post_stages w s3)"
proof -
  from readable(2) have r: "\<forall>t \<in> set (get_all_tracks v). getmtime w (filepath t) \<noteq> None"
    by (simp add: get_all_tracks_def)
  note rm = remove_modified_deletes_changed[OF r s2]
  from remove_modified_result[of w "get_all_tracks v" v] obtain m where m:
    "TrackStore_tracks s2 = filter (\<lambda>t. filepath t \<notin> set m) (TrackStore_tracks v)"
    "db_tracks s2 = filter (\<lambda>t. filepath t \<notin> set m) (db_tracks v)"
    unfolding s2 by blast
  have still1: "\<forall>x \<in> set (TrackStore_tracks s2). getmtime w (filepath x) \<noteq> None"
    unfolding m using readable(1) by simp
  have still2: "\<forall>x \<in> set (db_tracks s2). getmtime w (filepath x) \<noteq> None"
    unfolding m using readable(2) by simp
  have run: "Populate_init w key s =
           (case (if untagged_items w v \<noteq> [] then tag_untagged w (untagged_items w v) key s2
                  else (Returns, s2)) of
              (Raises e, s3) \<Rightarrow> (Raises e, s3)
            | (Returns, s3) \<Rightarrow> post_stages w s3)"
    unfolding s2 v
    by (rule Populate_init_after_removal[OF roots]) (use rm v in simp)
  from rm still1 still2 run show ?thesis by blast
qed

theorem stale_tracks_removed_before_ingestion_witness:
  "root_dirs touched_world \<noteq> [] \<and>
   getmtime touched_world ''/music/a.mp3'' = Some 2 \<and>
   map (\<lambda>t. (filepath t, last_mod t)) (get_all_tracks (validated touched_world ''K1'' library_state))
     = [(''/music/a.mp3'', 1), (''/music/b.mp3'', 1), (''/music/c.mp3'', 1)] \<and>
   fst (remove_modified touched_world
          (get_all_tracks (validated touched_world ''K1'' library_state))
          (validated touched_world ''K1'' library_state)) = Returns \<and>
   ''/music/a.mp3'' \<notin> filepath ` set (TrackStore_tracks (snd (remove_modified touched_world
          (get_all_tracks (validated touched_world ''K1'' library_state))
          (validated touched_world ''K1'' library_state)))) \<and>
   ''/music/a.mp3'' \<notin> filepath ` set (db_tracks (snd (remove_modified touched_world
          (get_all_tracks (validated touched_world ''K1'' library_state))
          (validated touched_world ''K1'' library_state)))) \<and>
   length (TrackStore_tracks (snd (remove_modified touched_world
          (get_all_tracks (validated touched_world ''K1'' library_state))
          (validated touched_world ''K1'' library_state)))) = 2 \<and>
   getmtime checked_world ''/music/gone.mp3'' = None \<and>
   ''/music/gone.mp3'' \<in> filepath ` set (TrackStore_tracks gone_state) \<and>
   fst (Populate_init checked_world ''K1'' gone_state) = Returns \<and>
   ''/music/gone.mp3'' \<notin> filepath ` set (TrackStore_tracks (snd (remove_modified checked_world
          (get_all_tracks (validated checked_world ''K1'' gone_state))
          (validated checked_world ''K1'' gone_state)))) \<and>
   ''/music/gone.mp3'' \<notin> filepath ` set (TrackStore_tracks
          (snd (Populate_init checked_world ''K1'' gone_state))) \<and>
   ''/music/gone.mp3'' \<notin> filepath ` set (db_tracks
          (snd (Populate_init checked_world ''K1'' gone_state)))"
  using stale_tracks_removed_before_ingestion
    [where w = touched_world and key = "''K1''" and s = library_state
       and v = "validated touched_world ''K1'' library_state"
       and ?s2.0 = "snd (remove_modified touched_world
          (get_all_tracks (validated touched_world ''K1'' library_state))
          (validated touched_world ''K1'' library_state))"]
    stale_tracks_removed_before_ingestion
    [where w = checked_world and key = "''K1''" and s = gone_state
       and v = "validated checked_world ''K1'' gone_state"
       and ?s2.0 = "snd (remove_modified checked_world
          (get_all_tracks (validated checked_world ''K1'' gone_state))
          (validated checked_world ''K1'' gone_state))"]
  by (simp add: world_defs library_state_def gone_state_def run_defs eval_defs sublist_code)

text \<open>
  The claim as stated fails for a track that only the in-memory store knows. A cancelled
  run leaves the track of the file it ingested in the Track store and not in the table.
  After the files were modified, the next run reads no track from the table, removes
  nothing, and ingests all three files: the entry with the old time stamp is still in the
  Track store when ingestion begins and when the run has returned.
\<close>

theorem memory_only_stale_track_survives:
  "fst (Populate_init cancel_checked_world ''K1'' empty_state) = Raises PopulateCancelledError \<and>
   db_tracks (snd (Populate_init cancel_checked_world ''K1'' empty_state)) = [] \<and>
   map last_mod (TrackStore_tracks (snd (Populate_init cancel_checked_world ''K1'' empty_state)))
     = [1] \<and>
   map (getmtime all_touched_world) [''/music/a.mp3'', ''/music/b.mp3'', ''/music/c.mp3'']
     = [Some 2, Some 2, Some 2] \<and>
   map last_mod (TrackStore_tracks (snd (remove_modified all_touched_world
      (get_all_tracks (validated all_touched_world ''K2''
         (snd (Populate_init cancel_checked_world ''K1'' empty_state))))
      (validated all_touched_world ''K2''
         (snd (Populate_init cancel_checked_world ''K1'' empty_state)))))) = [1] \<and>
   fst (Populate_init all_touched_world ''K2''
          (snd (Populate_init cancel_checked_world ''K1'' empty_state))) = Returns \<and>
   map last_mod (TrackStore_tracks (snd (Populate_init all_touched_world ''K2''
          (snd (Populate_init cancel_checked_world ''K1'' empty_state))))) = [1, 2, 2, 2]"
  by (simp add: world_defs run_defs eval_defs sublist_code)

end
